theory Spec2Isabelle
  imports Main "HOL-Library.Sublist" "HOL-Library.Word"
begin

section \<open>A shallow embedding of httpServe.c\<close>

text \<open>
  The server answers one connection at a time: it reads one buffer from the client
  socket, extracts the request path (\<open>get_request_path\<close>), prefixes the document root,
  and either streams a file (\<open>serve_file\<close>), runs the PHP interpreter on it and relays its
  standard output (\<open>serve_php\<close>), or sends a fixed 404 page.

  C strings are modelled as \<open>string\<close> (the bytes before the terminating NUL); character
  arrays that the code updates in place are byte lists of the array's size. System calls
  are answered by an environment record, and what a function does to the outside world is
  the list of events it returns. A \<open>write\<close> on the client socket is taken to send all
  its bytes (the code does not look at what \<open>write\<close> returns). The log that the server
  prints to its standard output is no event of its own; it is followed as text, because
  what of it is still in the stdio buffer at \<open>fork\<close> can reach the client through the child.
\<close>

subsection \<open>Constants\<close>

definition BUFFER_SIZE :: nat where "BUFFER_SIZE = 4096"
definition MAX_PATH_LENGTH :: nat where "MAX_PATH_LENGTH = 256"
definition WWW_DIRECTORY :: string where "WWW_DIRECTORY = ''./www''"
definition PHP_CLI :: string where "PHP_CLI = ''/usr/bin/php''"

definition NUL :: char where "NUL = CHR 0x00"
definition CR :: char where "CR = CHR 0x0D"
definition LF :: char where "LF = CHR 0x0A"
definition CRLF :: string where "CRLF = [CR, LF]"

subsection \<open>C library functions on strings\<close>

text \<open>The C string stored at the start of a byte array: everything before the first NUL.\<close>

definition c_str :: "char list \<Rightarrow> string" where
  "c_str mem = takeWhile (\<lambda>c. c \<noteq> NUL) mem"

text \<open>\<open>strstr\<close> returns the offset of the first occurrence of the needle, \<open>None\<close> for a
  null pointer.\<close>

fun strstr :: "string \<Rightarrow> string \<Rightarrow> nat option" where
  "strstr [] needle = (if needle = [] then Some 0 else None)"
| "strstr (c # cs) needle =
     (if prefix needle (c # cs) then Some 0 else map_option Suc (strstr cs needle))"

text \<open>\<open>strrchr\<close> returns the offset of the last occurrence of a character.\<close>

fun strrchr :: "string \<Rightarrow> char \<Rightarrow> nat option" where
  "strrchr [] ch = None"
| "strrchr (c # cs) ch =
     (case strrchr cs ch of
        Some i \<Rightarrow> Some (Suc i)
      | None \<Rightarrow> if c = ch then Some 0 else None)"

text \<open>\<open>strcpy\<close> and \<open>strncpy\<close> overwrite the start of the destination array and leave
  the rest of it as it was; \<open>strncpy\<close> pads a short source with NULs.\<close>

definition strcpy :: "char list \<Rightarrow> string \<Rightarrow> char list" where
  "strcpy dest src = src @ NUL # drop (Suc (length src)) dest"

definition strncpy :: "char list \<Rightarrow> string \<Rightarrow> nat \<Rightarrow> char list" where
  "strncpy dest src n = take n (src @ replicate (n - length src) NUL) @ drop n dest"

text \<open>\<open>snprintf(buf, n, ...)\<close> stores at most \<open>n - 1\<close> characters of the formatted text.\<close>

definition snprintf :: "nat \<Rightarrow> string \<Rightarrow> string" where
  "snprintf n formatted = take (n - 1) formatted"

text \<open>\<open>tolower\<close> in the C locale, and the test \<open>strcasecmp(a, b) == 0\<close>.\<close>

definition tolower :: "char \<Rightarrow> char" where
  "tolower c =
     (case map_of (zip ''ABCDEFGHIJKLMNOPQRSTUVWXYZ'' ''abcdefghijklmnopqrstuvwxyz'') c of
        Some lower \<Rightarrow> lower
      | None \<Rightarrow> c)"

definition strcasecmp_eq :: "string \<Rightarrow> string \<Rightarrow> bool" where
  "strcasecmp_eq a b = (map tolower a = map tolower b)"

text \<open>The conversion \<open>%ld\<close>: a signed decimal numeral.\<close>

definition digit :: "nat \<Rightarrow> char" where
  "digit d = ''0123456789'' ! d"

fun dec :: "nat \<Rightarrow> string" where
  "dec n = (if n < 10 then [digit n] else dec (n div 10) @ [digit (n mod 10)])"

declare dec.simps [simp del]

definition fmt_ld :: "int \<Rightarrow> string" where
  "fmt_ld i = (if i < 0 then CHR ''-'' # dec (nat (- i)) else dec (nat i))"

subsection \<open>Helpers of the server\<close>

definition get_file_extension :: "string \<Rightarrow> string" where
  "get_file_extension filename =
     (case strrchr filename (CHR ''.'') of
        None \<Rightarrow> []
      | Some dot \<Rightarrow> if dot = 0 then [] else drop (Suc dot) filename)"

text \<open>\<open>strcmp(extension, s) == 0\<close> is equality of the two C strings.\<close>

definition get_content_type :: "string \<Rightarrow> string" where
  "get_content_type extension =
     (if extension = ''html'' \<or> extension = ''htm'' then ''text/html''
      else if extension = ''css'' then ''text/css''
      else if extension = ''js'' then ''application/javascript''
      else if extension = ''jpg'' \<or> extension = ''jpeg'' then ''image/jpeg''
      else if extension = ''png'' then ''image/png''
      else if extension = ''gif'' then ''image/gif''
      else if extension = ''txt'' then ''text/plain''
      else if extension = ''php'' then ''text/html''
      else ''application/octet-stream'')"

subsection \<open>The request parser\<close>

text \<open>
  The decoding loop of \<open>get_request_path\<close> works in place: \<open>src\<close> and \<open>dst\<close> are offsets
  into the same array \<open>path\<close>. \<open>strncmp(src, "%20", 3) == 0\<close> holds when the three bytes at
  \<open>src\<close> are \<open>%20\<close> (a NUL among them ends the comparison with a mismatch). The loop
  ends at the first NUL; the test \<open>src < length path\<close> is the end of the array, which
  \<open>get_request_path\<close> never reaches, since it has stored a NUL at \<open>path_length\<close>
  (lemma \<open>url_decode_loop_spec\<close>).
\<close>

function url_decode_loop :: "char list \<Rightarrow> nat \<Rightarrow> nat \<Rightarrow> char list" where
  "url_decode_loop path src dst =
     (if src < length path \<and> path ! src \<noteq> NUL then
        (if take 3 (drop src path) = ''%20''
         then url_decode_loop (path[dst := CHR '' '']) (src + 3) (Suc dst)
         else url_decode_loop (path[dst := path ! src]) (Suc src) (Suc dst))
      else path[dst := NUL])"
  by pat_completeness auto
termination
  by (relation "measure (\<lambda>(path, src, dst). length path - src)") auto

declare url_decode_loop.simps [simp del]

text \<open>
  \<open>get_request_path\<close> takes the contents of its static array \<open>path\<close> on entry and the
  memory \<open>request\<close> points to; it returns the contents of \<open>path\<close> on exit. The pointer it
  returns is \<open>path\<close>, so the caller reads \<open>c_str\<close> of the result.
\<close>

definition get_request_path :: "char list \<Rightarrow> char list \<Rightarrow> char list" where
  "get_request_path path request_mem =
     (let request = c_str request_mem in
      case strstr request ''GET '' of
        None \<Rightarrow> strcpy path ''/''
      | Some get_pos \<Rightarrow>
          (let path_start = drop (get_pos + 4) request in
           case strstr path_start '' '' of
             None \<Rightarrow> strcpy path ''/''
           | Some path_end \<Rightarrow>
               (let path_length =
                      (if path_end \<ge> MAX_PATH_LENGTH then MAX_PATH_LENGTH - 1 else path_end);
                    path1 = (strncpy path path_start path_length)[path_length := NUL]
                in url_decode_loop path1 0 0)))"

subsection \<open>The environment and the events of a run\<close>

datatype fd = ClientSocket | FileFd | PipeReadEnd | PipeWriteEnd

text \<open>The result of one \<open>read\<close>: the bytes delivered (none at end of file, where \<open>read\<close>
  returns 0), or an error (\<open>read\<close> returns -1).\<close>

datatype read_result = Bytes string | ReadError

datatype event =
    EvWrite string
  | EvRead fd read_result
  | EvClose fd
  | EvWaitpid

text \<open>An opened file: what \<open>fstat\<close> reports as \<open>st_size\<close> (\<open>None\<close> when it fails), and
  what the successive calls of \<open>read\<close> on the descriptor deliver.\<close>

record open_file =
  fstat_size :: "64 word option"
  file_read :: "nat \<Rightarrow> read_result"

text \<open>
  The operating system as one request sees it: which paths \<open>stat\<close> finds, what
  \<open>open(path, O_RDONLY)\<close> gives, whether \<open>pipe\<close> and \<open>fork\<close> succeed, whether \<open>execl\<close> of an
  executable succeeds in the child, and what the interpreter run on a script writes to its
  standard output, as the successive reads on the pipe deliver it.

  \<open>stdout_pending\<close> is the buffering of the server's own standard output: given the text
  that the connection has printed with \<open>printf\<close> so far, it gives the bytes that are still in
  the stdio buffer. On a terminal the stream is line buffered and every log line ends with
  a newline, so nothing is pending (\<open>\<lambda>printed. []\<close>); when the output goes to a file or a
  pipe the stream is fully buffered, and what was pending when the connection began,
  followed by the text printed since, is still there unless the buffer has filled.
\<close>

record os_env =
  stat_ok :: "string \<Rightarrow> bool"
  open_rdonly :: "string \<Rightarrow> open_file option"
  pipe_ok :: bool
  fork_ok :: bool
  execl_ok :: "string \<Rightarrow> bool"
  interp_stdout :: "string \<Rightarrow> nat \<Rightarrow> read_result"
  stdout_pending :: "string \<Rightarrow> string"

definition file_exists :: "os_env \<Rightarrow> string \<Rightarrow> bool" where
  "file_exists env path = stat_ok env path"

text \<open>Reading given bytes through a descriptor with a buffer of \<open>BUFFER_SIZE\<close> bytes: each
  \<open>read\<close> delivers the next \<open>BUFFER_SIZE\<close> bytes, and none at the end.\<close>

definition chunked_reads :: "string \<Rightarrow> nat \<Rightarrow> read_result" where
  "chunked_reads bytes k = Bytes (take BUFFER_SIZE (drop (k * BUFFER_SIZE) bytes))"

text \<open>A regular file with the given contents that nobody modifies: \<open>fstat\<close> reports its
  length, and the reads deliver its bytes.\<close>

definition regular_file :: "string \<Rightarrow> open_file" where
  "regular_file bytes =
     \<lparr> fstat_size = Some (of_nat (length bytes)), file_read = chunked_reads bytes \<rparr>"

subsection \<open>Fixed responses\<close>

definition not_found_response :: string where
  "not_found_response =
     ''HTTP/1.1 404 Not Found'' @ CRLF @
     ''Content-Type: text/html'' @ CRLF @
     ''Connection: close'' @ CRLF @
     CRLF @
     ''<html><body>'' @
     ''<h1>404 Not Found</h1>'' @
     ''<p>The requested resource could not be found on this server.</p>'' @
     ''</body></html>''"

definition server_error_response :: string where
  "server_error_response =
     ''HTTP/1.1 500 Internal Server Error'' @ CRLF @
     ''Content-Type: text/html'' @ CRLF @
     ''Connection: close'' @ CRLF @
     CRLF @
     ''<html><body>'' @
     ''<h1>500 Internal Server Error</h1>'' @
     ''<p>The server encountered an error while processing your request.</p>'' @
     ''</body></html>''"

definition send_not_found :: "event list" where
  "send_not_found = [EvWrite not_found_response]"

definition send_server_error :: "event list" where
  "send_server_error = [EvWrite server_error_response]"

subsection \<open>Relaying a descriptor to the client\<close>

text \<open>
  \<open>serve_file\<close> and \<open>serve_php\<close> end with the same loop,
  \<^verbatim>\<open>while ((bytes_read = read(fd, buffer, BUFFER_SIZE)) > 0) write(client_socket, buffer, bytes_read);\<close>
  It runs for as long as \<open>read\<close> delivers bytes, so it need not return: the result is
  \<open>None\<close> when it does not.
\<close>

partial_function (option) relay_loop :: "fd \<Rightarrow> (nat \<Rightarrow> read_result) \<Rightarrow> nat \<Rightarrow> event list option" where
  "relay_loop d rd k =
     (case rd k of
        Bytes buffer \<Rightarrow>
          if buffer \<noteq> []
          then Option.bind (relay_loop d rd (Suc k))
                 (\<lambda>es. Some (EvRead d (Bytes buffer) # EvWrite buffer # es))
          else Some [EvRead d (Bytes [])]
      | ReadError \<Rightarrow> Some [EvRead d ReadError])"

subsection \<open>Running a script\<close>

text \<open>
  \<open>serve_php\<close> starts with \<open>printf("Executing PHP script: %s\n", file_path)\<close>; \<open>printed\<close> is
  what the connection has printed to standard output before.
\<close>

definition script_log :: "string \<Rightarrow> string \<Rightarrow> string" where
  "script_log printed file_path = printed @ ''Executing PHP script: '' @ file_path @ [LF]"

text \<open>
  The child is a copy of the server, stdio buffer included. It closes the read end, makes
  the write end its standard output and calls \<open>execl(PHP_CLI, PHP_CLI, file_path, NULL)\<close>.
  When that succeeds, the interpreter replaces the copy (and its buffer), and the pipe
  carries the interpreter's output. When it fails, the child prints to standard error and
  calls \<open>exit(EXIT_FAILURE)\<close>, which flushes standard output: the bytes of the log that were
  pending at \<open>fork\<close> go into the pipe, and the parent reads them before the end of the
  stream.
\<close>

definition child_stdout :: "os_env \<Rightarrow> string \<Rightarrow> string \<Rightarrow> nat \<Rightarrow> read_result" where
  "child_stdout env printed file_path =
     (if execl_ok env PHP_CLI then interp_stdout env file_path
      else chunked_reads (stdout_pending env printed))"

definition php_headers :: string where
  "php_headers =
     ''HTTP/1.1 200 OK'' @ CRLF @
     ''Content-Type: text/html'' @ CRLF @
     ''Connection: close'' @ CRLF @
     CRLF"

definition serve_php :: "os_env \<Rightarrow> string \<Rightarrow> string \<Rightarrow> event list option" where
  "serve_php env printed file_path =
     (if \<not> pipe_ok env then Some send_server_error
      else if \<not> fork_ok env then Some ([EvClose PipeReadEnd, EvClose PipeWriteEnd] @ send_server_error)
      else map_option
             (\<lambda>es. [EvClose PipeWriteEnd, EvWrite php_headers] @ es @ [EvClose PipeReadEnd, EvWaitpid])
             (relay_loop PipeReadEnd (child_stdout env (script_log printed file_path) file_path) 0))"

subsection \<open>Serving a file\<close>

definition file_headers :: "string \<Rightarrow> 64 word \<Rightarrow> string" where
  "file_headers content_type st_size =
     snprintf BUFFER_SIZE
       (''HTTP/1.1 200 OK'' @ CRLF @
        ''Content-Type: '' @ content_type @ CRLF @
        ''Content-Length: '' @ fmt_ld (sint st_size) @ CRLF @
        ''Connection: close'' @ CRLF @
        CRLF)"

definition serve_file :: "os_env \<Rightarrow> string \<Rightarrow> event list option" where
  "serve_file env file_path =
     (let extension = get_file_extension file_path;
          content_type = get_content_type extension
      in case open_rdonly env file_path of
           None \<Rightarrow> Some send_not_found
         | Some file \<Rightarrow>
             (case fstat_size file of
                None \<Rightarrow> Some (EvClose FileFd # send_server_error)
              | Some st_size \<Rightarrow>
                  map_option
                    (\<lambda>es. [EvWrite (file_headers content_type st_size)] @ es @ [EvClose FileFd])
                    (relay_loop FileFd (file_read file) 0)))"

subsection \<open>Handling one connection\<close>

text \<open>
  \<open>handle_client\<close> gets the contents of the static array of \<open>get_request_path\<close> on entry and
  the result of its one \<open>read\<close> on the client socket (at most \<open>BUFFER_SIZE - 1\<close> bytes are
  stored, in a buffer of \<open>BUFFER_SIZE\<close> zero bytes). A run either does not return
  (\<open>None\<close>), returns after the events listed, or reads
  \<open>request_path[strlen(request_path) - 1]\<close> with an empty request path, one byte before the
  array, which C leaves undefined.
\<close>

datatype outcome = Undefined_Behaviour | Returned "event list"

text \<open>The array \<open>buffer\<close> after \<open>read(client_socket, buffer, BUFFER_SIZE - 1)\<close> has stored the
  bytes received.\<close>

definition recv_buffer :: "string \<Rightarrow> char list" where
  "recv_buffer received =
     (let bytes_read = min (BUFFER_SIZE - 1) (length received)
      in take bytes_read received @ replicate (BUFFER_SIZE - bytes_read) NUL)"

text \<open>What \<open>handle_client\<close> prints before it dispatches:
  \<open>printf("Received request:\n%s\n", buffer)\<close> and
  \<open>printf("Requested path: %s\n", request_path)\<close>.\<close>

definition request_log :: "char list \<Rightarrow> string \<Rightarrow> string" where
  "request_log buffer request_path =
     ''Received request:'' @ [LF] @ c_str buffer @ [LF] @
     ''Requested path: '' @ request_path @ [LF]"

text \<open>Whatever branch has run, \<open>handle_client\<close> ends with \<open>close(client_socket)\<close>.\<close>

definition finish :: "event list option \<Rightarrow> outcome option" where
  "finish r = map_option (\<lambda>es. Returned (es @ [EvClose ClientSocket])) r"

definition handle_client :: "os_env \<Rightarrow> char list \<Rightarrow> read_result \<Rightarrow> outcome option" where
  "handle_client env path incoming =
     (case incoming of
        ReadError \<Rightarrow> Some (Returned [EvClose ClientSocket])
      | Bytes received \<Rightarrow>
          if received = [] then Some (Returned [EvClose ClientSocket])
          else
            (let buffer = recv_buffer received;
                 request_path = c_str (get_request_path path buffer);
                 printed = request_log buffer request_path;
                 file_path = snprintf MAX_PATH_LENGTH (WWW_DIRECTORY @ request_path)
             in if request_path = [] then Some Undefined_Behaviour
                else if last request_path = CHR ''/'' then
                  (let index_html_path = snprintf MAX_PATH_LENGTH (file_path @ ''/index.html'');
                       index_php_path = snprintf MAX_PATH_LENGTH (file_path @ ''/index.php'')
                   in if file_exists env index_html_path then finish (serve_file env index_html_path)
                      else if file_exists env index_php_path
                      then finish (serve_php env printed index_php_path)
                      else finish (Some send_not_found))
                else if file_exists env file_path then
                  (let extension = get_file_extension file_path
                   in if strcasecmp_eq extension ''php'' then finish (serve_php env printed file_path)
                      else finish (serve_file env file_path))
                else finish (Some send_not_found)))"

subsection \<open>Notions used to state the properties\<close>

text \<open>
  The decoding the design describes: one pass from left to right in which every literal
  \<open>%20\<close> becomes a space and every other byte is copied. It is compared below with the
  in-place loop of the code.
\<close>

fun url_decode :: "string \<Rightarrow> string" where
  "url_decode [] = []"
| "url_decode (c # cs) =
     (if c = CHR ''%'' \<and> take 2 cs = ''20'' then CHR '' '' # url_decode (drop 2 cs)
      else c # url_decode cs)"

text \<open>\<open>first_occurrence needle s i\<close>: the needle occurs in \<open>s\<close> at offset \<open>i\<close> and at no
  smaller offset.\<close>

definition first_occurrence :: "string \<Rightarrow> string \<Rightarrow> nat \<Rightarrow> bool" where
  "first_occurrence needle s i =
     (prefix needle (drop i s) \<and> (\<forall>k \<in> {..<i}. \<not> prefix needle (drop k s)))"

text \<open>A \<open>read\<close> that ends the relay loop: end of file or an error.\<close>

fun is_end :: "read_result \<Rightarrow> bool" where
  "is_end (Bytes buffer) = (buffer = [])"
| "is_end ReadError = True"

text \<open>What a list of events sends to the client: the writes, one by one and as one text.
  (The code ignores what \<open>write\<close> returns; a write is taken to send all its bytes.)\<close>

fun writes :: "event list \<Rightarrow> string list" where
  "writes [] = []"
| "writes (EvWrite bytes # es) = bytes # writes es"
| "writes (e # es) = writes es"

fun socket_bytes :: "event list \<Rightarrow> string" where
  "socket_bytes [] = []"
| "socket_bytes (EvWrite bytes # es) = bytes @ socket_bytes es"
| "socket_bytes (e # es) = socket_bytes es"

text \<open>The events of a relay loop on descriptor \<open>d\<close> that has returned: each read that
  delivers bytes is followed by the write of these bytes, and the last event is the read
  that ends the loop.\<close>

fun relay_trace :: "fd \<Rightarrow> event list \<Rightarrow> bool" where
  "relay_trace d [EvRead d' r] = (d' = d \<and> is_end r)"
| "relay_trace d (EvRead d' (Bytes buffer) # EvWrite bytes # es) =
     (d' = d \<and> buffer \<noteq> [] \<and> bytes = buffer \<and> relay_trace d es)"
| "relay_trace d es = False"




text \<open>The head of an HTTP/1.1 response: the status line, the header lines and the empty
  line, each ended by CRLF.\<close>

definition response_head :: "string \<Rightarrow> string list \<Rightarrow> string" where
  "response_head status headers =
     ''HTTP/1.1 '' @ status @ CRLF @ concat (map (\<lambda>h. h @ CRLF) headers) @ CRLF"

text \<open>\<open>body_only\<close>: every write in the list repeats the bytes of the read just before it,
  so the list adds body bytes and no second head.\<close>

fun body_only :: "event list \<Rightarrow> bool" where
  "body_only [] = True"
| "body_only (EvRead d (Bytes buffer) # EvWrite bytes # es) = (bytes = buffer \<and> body_only es)"
| "body_only (EvWrite bytes # es) = False"
| "body_only (e # es) = body_only es"

text \<open>
  \<open>response_ok\<close>: there is a first write, it starts with one response head whose status is
  one of the three the server knows and whose headers include \<open>Connection: close\<close> (the
  status and the headers are lines: not empty, without CR or LF), and every later write
  is body.
\<close>

definition response_ok :: "event list \<Rightarrow> bool" where
  "response_ok tr =
     (\<exists>pre status headers page post.
         tr = pre @ EvWrite (response_head status headers @ page) # post
         \<and> writes pre = []
         \<and> status \<in> {''200 OK'', ''404 Not Found'', ''500 Internal Server Error''}
         \<and> ''Connection: close'' \<in> set headers
         \<and> (\<forall>l \<in> set (status # headers). l \<noteq> [] \<and> CR \<notin> set l \<and> LF \<notin> set l)
         \<and> body_only post)"

text \<open>The word \<open>php\<close> in every letter case.\<close>

definition php_spellings :: "string list" where
  "php_spellings = [''php'', ''phP'', ''pHp'', ''pHP'', ''Php'', ''PhP'', ''PHp'', ''PHP'']"

text \<open>The number a decimal numeral stands for.\<close>

fun dec_value :: "string \<Rightarrow> nat" where
  "dec_value s = foldl (\<lambda>a c. 10 * a + (of_char c - 48)) 0 s"

subsection \<open>Example environments\<close>

text \<open>A document root with an index page, two scripts and a text file with an upper-case
  extension; the interpreter is installed and prints one paragraph; the server's standard
  output is a terminal.\<close>

definition demo_env :: os_env where
  "demo_env =
     \<lparr> stat_ok = (\<lambda>p. p \<in> set [''./www'', ''./www/'', ''./www//index.html'', ''./www/index.html'',
                                 ''./www/info.php'', ''./www/page.PHP'', ''./www/NOTES.TXT'']),
       open_rdonly = (\<lambda>p. if p \<in> set [''./www//index.html'', ''./www/index.html'']
                           then Some (regular_file ''<h1>It works</h1>'')
                           else if p = ''./www/NOTES.TXT'' then Some (regular_file ''hello'')
                           else None),
       pipe_ok = True,
       fork_ok = True,
       execl_ok = (\<lambda>p. p = PHP_CLI),
       interp_stdout = (\<lambda>p k. if k = 0 then Bytes ''<p>hi</p>'' else Bytes []),
       stdout_pending = (\<lambda>printed. []) \<rparr>"

text \<open>
  A document root with one directory whose request path is 250 bytes long and which holds
  an index page. Opening the directory itself succeeds, \<open>fstat\<close> reports 4096 bytes, and
  reading it fails.
\<close>

definition long_dir :: string where
  "long_dir = CHR ''/'' # replicate 248 (CHR ''a'') @ ''/''"

definition long_dir_env :: os_env where
  "long_dir_env =
     \<lparr> stat_ok = (\<lambda>p. p = WWW_DIRECTORY @ long_dir
                       \<or> p = WWW_DIRECTORY @ long_dir @ ''index.html''
                       \<or> p = WWW_DIRECTORY @ long_dir @ ''/index.html''),
       open_rdonly = (\<lambda>p. if p = WWW_DIRECTORY @ long_dir
                           then Some \<lparr> fstat_size = Some 4096, file_read = (\<lambda>k. ReadError) \<rparr>
                           else if p = WWW_DIRECTORY @ long_dir @ ''index.html''
                                   \<or> p = WWW_DIRECTORY @ long_dir @ ''/index.html''
                           then Some (regular_file ''<h1>It works</h1>'')
                           else None),
       pipe_ok = True,
       fork_ok = True,
       execl_ok = (\<lambda>p. p = PHP_CLI),
       interp_stdout = (\<lambda>p k. Bytes []),
       stdout_pending = (\<lambda>printed. []) \<rparr>"

text \<open>
  A document root with a script whose request path, \<open>long_php_cut\<close> followed by \<open>.php\<close>, is
  254 bytes long, and with a plain file whose request path is \<open>long_php_cut\<close>, the first 250
  bytes of it. The script prints nothing.
\<close>

definition long_php_cut :: string where
  "long_php_cut = CHR ''/'' # replicate 249 (CHR ''a'')"

definition long_php_env :: os_env where
  "long_php_env =
     \<lparr> stat_ok = (\<lambda>p. p = WWW_DIRECTORY @ long_php_cut
                       \<or> p = WWW_DIRECTORY @ long_php_cut @ ''.php''),
       open_rdonly = (\<lambda>p. if p = WWW_DIRECTORY @ long_php_cut
                           then Some (regular_file ''plain'')
                           else if p = WWW_DIRECTORY @ long_php_cut @ ''.php''
                           then Some (regular_file ''<?php ?>'')
                           else None),
       pipe_ok = True,
       fork_ok = True,
       execl_ok = (\<lambda>p. p = PHP_CLI),
       interp_stdout = (\<lambda>p k. Bytes []),
       stdout_pending = (\<lambda>printed. []) \<rparr>"

section \<open>The request parser\<close>

subsection \<open>strstr\<close>

lemma strstr_None: "strstr s n = None \<Longrightarrow> \<not> prefix n (drop k s)"
proof (induction s arbitrary: k)
  case Nil
  then show ?case by (simp split: if_splits)
next
  case (Cons c cs)
  then show ?case by (cases k) (auto split: if_splits)
qed

lemma strstr_Some: "strstr s n = Some i \<Longrightarrow> first_occurrence n s i"
proof (induction s arbitrary: i)
  case Nil
  then show ?case by (simp add: first_occurrence_def split: if_splits)
next
  case (Cons c cs)
  show ?case
  proof (cases "prefix n (c # cs)")
    case True
    with Cons.prems show ?thesis by (simp add: first_occurrence_def)
  next
    case False
    with Cons.prems obtain i' where i': "strstr cs n = Some i'" "i = Suc i'" by auto
    from Cons.IH[OF i'(1)] have IH: "first_occurrence n cs i'" .
    have "\<not> prefix n (drop k (c # cs))" if "k < i" for k
    proof (cases k)
      case 0
      then show ?thesis using False by simp
    next
      case (Suc k')
      then show ?thesis using IH that i'(2) by (simp add: first_occurrence_def)
    qed
    then show ?thesis using IH i'(2) by (simp add: first_occurrence_def)
  qed
qed

lemma first_occurrence_unique:
  "first_occurrence n s i \<Longrightarrow> first_occurrence n s j \<Longrightarrow> i = j"
  unfolding first_occurrence_def by (metis lessThan_iff linorder_neqE_nat)

lemma first_occurrence_strstr: "first_occurrence n s i \<longleftrightarrow> strstr s n = Some i"
proof
  assume f: "first_occurrence n s i"
  show "strstr s n = Some i"
  proof (cases "strstr s n")
    case None
    from strstr_None[OF None, of i] f show ?thesis by (simp add: first_occurrence_def)
  next
    case (Some j)
    from strstr_Some[OF Some] f have "j = i" by (rule first_occurrence_unique)
    with Some show ?thesis by simp
  qed
qed (rule strstr_Some)

lemma strstr_char_None: "strstr s [c] = None \<longleftrightarrow> c \<notin> set s"
  by (induction s) auto

lemma strstr_char_Some:
  "strstr s [c] = Some j \<Longrightarrow> j < length s \<and> s ! j = c \<and> c \<notin> set (take j s)"
proof (induction s arbitrary: j)
  case Nil
  then show ?case by simp
next
  case (Cons x xs)
  then show ?case by (cases "x = c") auto
qed

subsection \<open>The specified decoding\<close>

lemma url_decode_append_escape:
  "url_decode (a @ ''%20'' @ b) = url_decode a @ '' '' @ url_decode b"
proof (induction a rule: url_decode.induct)
  case 1
  show ?case by simp
next
  case (2 c cs)
  show ?case
  proof (cases "c = CHR ''%'' \<and> take 2 cs = ''20''")
    case True
    then obtain cs' where cs: "cs = CHR ''2'' # CHR ''0'' # cs'"
      by (cases cs; cases "tl cs") auto
    with True "2.IH"(1) show ?thesis by simp
  next
    case False
    then have "\<not> (c = CHR ''%'' \<and> take 2 (cs @ ''%20'' @ b) = ''20'')"
      by (cases cs; cases "tl cs") auto
    with False "2.IH"(2) show ?thesis by simp
  qed
qed

lemma url_decode_no_escape: "\<not> sublist ''%20'' t \<Longrightarrow> url_decode t = t"
proof (induction t rule: url_decode.induct)
  case 1
  show ?case by simp
next
  case (2 c cs)
  have no: "\<not> (c = CHR ''%'' \<and> take 2 cs = ''20'')"
  proof
    assume m: "c = CHR ''%'' \<and> take 2 cs = ''20''"
    then obtain cs' where "cs = CHR ''2'' # CHR ''0'' # cs'"
      by (cases cs; cases "tl cs") auto
    with m have "prefix ''%20'' (c # cs)" by simp
    with "2.prems" show False by (simp add: sublist_Cons_right)
  qed
  from "2.prems" have "\<not> sublist ''%20'' cs" by (simp add: sublist_Cons_right)
  with "2.IH"(2)[OF no] no show ?case by simp
qed

lemma url_decode_take2: "take 2 (url_decode cs) = ''20'' \<Longrightarrow> take 2 cs = ''20''"
  by (cases cs; cases "tl cs") (auto split: if_splits)

lemma url_decode_not_prefix: "\<not> prefix ''%20'' (url_decode t)"
proof (cases t)
  case Nil
  then show ?thesis by simp
next
  case (Cons c cs)
  show ?thesis
  proof (cases "c = CHR ''%'' \<and> take 2 cs = ''20''")
    case True
    with Cons show ?thesis by simp
  next
    case False
    have "prefix ''%20'' (c # url_decode cs) \<Longrightarrow> c = CHR ''%'' \<and> take 2 (url_decode cs) = ''20''"
      by (cases "url_decode cs"; cases "tl (url_decode cs)") auto
    with False url_decode_take2[of cs] Cons show ?thesis by auto
  qed
qed

lemma url_decode_no_raw_escape: "\<not> sublist ''%20'' (url_decode t)"
proof (induction t rule: url_decode.induct)
  case 1
  show ?case by simp
next
  case (2 c cs)
  show ?case
  proof (cases "c = CHR ''%'' \<and> take 2 cs = ''20''")
    case True
    with "2.IH"(1) show ?thesis by (simp add: sublist_Cons_right)
  next
    case False
    from url_decode_not_prefix[of "c # cs"] False
    have "\<not> prefix ''%20'' (c # url_decode cs)" by simp
    with False "2.IH"(2) show ?thesis by (auto simp add: sublist_Cons_right)
  qed
qed

lemma length_url_decode: "length (url_decode t) \<le> length t"
  by (induction t rule: url_decode.induct) auto

lemma set_url_decode: "set (url_decode t) \<subseteq> insert (CHR '' '') (set t)"
proof (induction t rule: url_decode.induct)
  case 1
  show ?case by simp
next
  case (2 c cs)
  have "set (drop 2 cs) \<subseteq> set cs" by (rule set_drop_subset)
  with 2 show ?case by auto
qed

lemma url_decode_NUL: "NUL \<notin> set t \<Longrightarrow> NUL \<notin> set (url_decode t)"
  using set_url_decode[of t] by (auto simp: NUL_def)

lemma url_decode_hd: "prefix ''/'' t \<Longrightarrow> prefix ''/'' (url_decode t)"
  by (cases t) auto

subsection \<open>The decoding loop\<close>

lemma take_Suc_update: "dst < length xs \<Longrightarrow> take (Suc dst) (xs[dst := x]) = take dst xs @ [x]"
  by (simp add: take_Suc_conv_app_nth)

lemma take_Suc_update_snoc:
  "dst \<le> length pre \<Longrightarrow> take (Suc dst) ((pre @ [c])[dst := x]) = take dst pre @ [x]"
  by (simp add: take_Suc_update)

lemma url_decode_loop_spec:
  "dst \<le> length pre \<Longrightarrow> NUL \<notin> set rest \<Longrightarrow>
   \<exists>t. url_decode_loop (pre @ rest @ NUL # tail) (length pre) dst
          = take dst pre @ url_decode rest @ NUL # t"
proof (induction rest arbitrary: pre dst rule: url_decode.induct)
  case 1
  have "dst < length (pre @ NUL # tail)" using "1.prems"(1) by simp
  then have "(pre @ NUL # tail)[dst := NUL]
      = take dst (pre @ NUL # tail) @ NUL # drop (Suc dst) (pre @ NUL # tail)"
    by (rule upd_conv_take_nth_drop)
  then have "(pre @ NUL # tail)[dst := NUL]
      = take dst pre @ NUL # drop (Suc dst) (pre @ NUL # tail)"
    using "1.prems"(1) by simp
  then show ?case
    by (subst url_decode_loop.simps) auto
next
  case (2 c cs)
  from "2.prems" have cN: "c \<noteq> NUL" and csN: "NUL \<notin> set cs" by auto
  show ?case
  proof (cases "c = CHR ''%'' \<and> take 2 cs = ''20''")
    case True
    then obtain cs' where cs: "cs = CHR ''2'' # CHR ''0'' # cs'"
      by (cases cs; cases "tl cs") auto
    let ?pre = "(pre @ ''%20'')[dst := CHR '' '']"
    have len: "length ?pre = length pre + 3" by simp
    have dst': "Suc dst \<le> length ?pre" using "2.prems"(1) by simp
    have N': "NUL \<notin> set (drop 2 cs)" using csN cs by simp
    from "2.IH"(1)[OF True dst' N'] obtain t where
      IH: "url_decode_loop (?pre @ drop 2 cs @ NUL # tail) (length ?pre) (Suc dst)
           = take (Suc dst) ?pre @ url_decode (drop 2 cs) @ NUL # t" by blast
    have upd: "(pre @ (c # cs) @ NUL # tail)[dst := CHR '' ''] = ?pre @ drop 2 cs @ NUL # tail"
      using True cs "2.prems"(1) by (simp add: list_update_append)
    have tk: "take (Suc dst) ?pre = take dst pre @ '' ''"
      using "2.prems"(1) by (simp add: list_update_append take_Suc_update)
    have step: "url_decode_loop (pre @ (c # cs) @ NUL # tail) (length pre) dst
        = url_decode_loop ((pre @ (c # cs) @ NUL # tail)[dst := CHR '' '']) (length pre + 3) (Suc dst)"
      using True cs cN by (subst url_decode_loop.simps) (simp add: NUL_def)
    have "url_decode_loop (pre @ (c # cs) @ NUL # tail) (length pre) dst
        = url_decode_loop (?pre @ drop 2 cs @ NUL # tail) (length ?pre) (Suc dst)"
      unfolding step upd len ..
    also have "\<dots> = take (Suc dst) ?pre @ url_decode (drop 2 cs) @ NUL # t"
      by (rule IH)
    also have "\<dots> = take dst pre @ url_decode (c # cs) @ NUL # t"
      unfolding tk using True by simp
    finally show ?thesis by blast
  next
    case False
    let ?pre = "(pre @ [c])[dst := c]"
    have dst': "Suc dst \<le> length ?pre" using "2.prems"(1) by simp
    from "2.IH"(2)[OF False dst' csN] obtain t where
      IH: "url_decode_loop (?pre @ cs @ NUL # tail) (length ?pre) (Suc dst)
           = take (Suc dst) ?pre @ url_decode cs @ NUL # t" by blast
    have upd: "(pre @ (c # cs) @ NUL # tail)[dst := c] = ?pre @ cs @ NUL # tail"
      using "2.prems"(1) by (simp add: list_update_append)
    have tk: "take (Suc dst) ?pre = take dst pre @ [c]"
      using "2.prems"(1) by (simp add: take_Suc_update_snoc)
    have ne: "take 3 ((c # cs) @ NUL # tail) \<noteq> ''%20''"
      using False by (cases cs; cases "tl cs") (auto simp: NUL_def)
    have step: "url_decode_loop (pre @ (c # cs) @ NUL # tail) (length pre) dst
        = url_decode_loop ((pre @ (c # cs) @ NUL # tail)[dst := c]) (Suc (length pre)) (Suc dst)"
      using ne cN by (subst url_decode_loop.simps) auto
    have "url_decode_loop (pre @ (c # cs) @ NUL # tail) (length pre) dst
        = url_decode_loop (?pre @ cs @ NUL # tail) (length ?pre) (Suc dst)"
      unfolding step upd by simp
    also have "\<dots> = take (Suc dst) ?pre @ url_decode cs @ NUL # t"
      by (rule IH)
    also have "\<dots> = take dst pre @ url_decode (c # cs) @ NUL # t"
      unfolding tk using False by simp
    finally show ?thesis by blast
  qed
qed

lemma c_str_simps:
  "c_str [] = []"
  "c_str (c # cs) = (if c = NUL then [] else c # c_str cs)"
  by (simp_all add: c_str_def)

lemma c_str_terminated: "NUL \<notin> set s \<Longrightarrow> c_str (s @ NUL # t) = s"
  by (induction s) (auto simp: c_str_def)

lemma c_str_no_NUL: "NUL \<notin> set (c_str mem)"
  unfolding c_str_def by (auto dest: set_takeWhileD)

lemma c_str_strcpy: "NUL \<notin> set s \<Longrightarrow> c_str (strcpy path s) = s"
  unfolding strcpy_def by (rule c_str_terminated)

lemma c_str_decoded:
  assumes len: "n < length path" and src: "n \<le> length s" and N: "NUL \<notin> set s"
  shows "c_str (url_decode_loop ((strncpy path s n)[n := NUL]) 0 0) = url_decode (take n s)"
proof -
  have "strncpy path s n = take n s @ drop n path"
    using src by (simp add: strncpy_def)
  moreover have "drop n path = path ! n # drop (Suc n) path"
    using len by (simp add: Cons_nth_drop_Suc)
  ultimately have "(strncpy path s n)[n := NUL] = take n s @ NUL # drop (Suc n) path"
    using src by (simp add: list_update_append)
  moreover have N': "NUL \<notin> set (take n s)"
    using N by (auto dest: in_set_takeD)
  moreover from url_decode_loop_spec[of 0 "[]" "take n s" "drop (Suc n) path"] N'
  obtain t where "url_decode_loop (take n s @ NUL # drop (Suc n) path) 0 0
      = url_decode (take n s) @ NUL # t" by auto
  ultimately show ?thesis
    by (simp add: c_str_terminated url_decode_NUL)
qed

text \<open>The request path as a function of the request alone.\<close>

lemma get_request_path_value:
  assumes "length path = MAX_PATH_LENGTH"
  shows "c_str (get_request_path path mem) =
     (case strstr (c_str mem) ''GET '' of
        None \<Rightarrow> ''/''
      | Some i \<Rightarrow>
          (case strstr (drop (i + 4) (c_str mem)) '' '' of
             None \<Rightarrow> ''/''
           | Some j \<Rightarrow> url_decode (take (min j (MAX_PATH_LENGTH - 1)) (drop (i + 4) (c_str mem)))))"
proof (cases "strstr (c_str mem) ''GET ''")
  case None
  then show ?thesis by (simp add: get_request_path_def c_str_strcpy NUL_def)
next
  case (Some i)
  let ?s = "drop (i + 4) (c_str mem)"
  show ?thesis
  proof (cases "strstr ?s '' ''")
    case None
    with Some show ?thesis by (simp add: get_request_path_def c_str_strcpy NUL_def)
  next
    case (Some j)
    let ?n = "min j (MAX_PATH_LENGTH - 1)"
    have n: "(if j \<ge> MAX_PATH_LENGTH then MAX_PATH_LENGTH - 1 else j) = ?n"
      by (simp add: MAX_PATH_LENGTH_def)
    from strstr_char_Some[OF Some] have "j < length ?s" by simp
    then have src: "?n \<le> length ?s" by simp
    have len: "?n < length path" using assms by (simp add: MAX_PATH_LENGTH_def)
    have N: "NUL \<notin> set ?s" using c_str_no_NUL[of mem] by (auto dest: in_set_dropD)
    from c_str_decoded[OF len src N] Some \<open>strstr (c_str mem) ''GET '' = Some i\<close> n
    show ?thesis by (simp add: get_request_path_def Let_def)
  qed
qed

text \<open>
  Claim C7. When \<open>GET \<close> first occurs at offset \<open>i\<close> of the request, the next space comes
  \<open>j\<close> bytes after it and the target between them fits the path array
  (\<open>j < MAX_PATH_LENGTH\<close>), the path returned is the target decoded in one pass from left
  to right: every \<open>%20\<close> becomes one space (the decoding distributes over each occurrence),
  and a text without \<open>%20\<close> is returned as it is, so no other escape is decoded.
\<close>

theorem request_target_decoded:
  assumes "length path = MAX_PATH_LENGTH"
    and "first_occurrence ''GET '' (c_str mem) i"
    and "first_occurrence '' '' (drop (i + 4) (c_str mem)) j"
    and "j < MAX_PATH_LENGTH"
  shows "c_str (get_request_path path mem) = url_decode (take j (drop (i + 4) (c_str mem)))
       \<and> (\<forall>a b. url_decode (a @ ''%20'' @ b) = url_decode a @ '' '' @ url_decode b)
       \<and> (\<forall>t. \<not> sublist ''%20'' t \<longrightarrow> url_decode t = t)"
proof -
  from assms(2,3) have "strstr (c_str mem) ''GET '' = Some i"
    and "strstr (drop (i + 4) (c_str mem)) '' '' = Some j"
    by (simp_all add: first_occurrence_strstr)
  moreover from assms(4) have "min j (MAX_PATH_LENGTH - 1) = j" by simp
  ultimately have "c_str (get_request_path path mem) = url_decode (take j (drop (i + 4) (c_str mem)))"
    using get_request_path_value[OF assms(1), of mem] by simp
  then show ?thesis
    using url_decode_append_escape url_decode_no_escape by blast
qed

theorem request_target_decoded_witness:
  "c_str (get_request_path (replicate 256 NUL) (''GET /my%20file%2B%20.txt HTTP/1.1'' @ CRLF @ CRLF))
     = ''/my file%2B .txt''"
  using request_target_decoded[of "replicate 256 NUL" "''GET /my%20file%2B%20.txt HTTP/1.1'' @ CRLF @ CRLF" 0 20]
  by (simp add: first_occurrence_strstr MAX_PATH_LENGTH_def c_str_simps NUL_def CRLF_def CR_def LF_def)

text \<open>
  Claim C2, as the code has it. The parser looks for \<open>GET \<close> anywhere in the buffer, not
  only at the start of the first line, and for the next space anywhere after it. When the
  buffer holds no \<open>GET \<close>, or no space follows its first occurrence, the path is \<open>/\<close>.
\<close>

theorem request_without_get_is_root:
  assumes "length path = MAX_PATH_LENGTH"
    and "\<forall>i. first_occurrence ''GET '' (c_str mem) i \<longrightarrow> CHR '' '' \<notin> set (drop (i + 4) (c_str mem))"
  shows "c_str (get_request_path path mem) = ''/''"
proof (cases "strstr (c_str mem) ''GET ''")
  case None
  then show ?thesis using get_request_path_value[OF assms(1), of mem] by simp
next
  case (Some i)
  with assms(2) have "CHR '' '' \<notin> set (drop (i + 4) (c_str mem))"
    by (simp add: first_occurrence_strstr)
  then have "strstr (drop (i + 4) (c_str mem)) '' '' = None"
    by (simp add: strstr_char_None)
  with Some show ?thesis using get_request_path_value[OF assms(1), of mem] by simp
qed

theorem request_without_get_is_root_witness:
  "c_str (get_request_path (replicate 256 NUL) (''POST /form HTTP/1.1'' @ CRLF @ CRLF)) = ''/''
   \<and> c_str (get_request_path (replicate 256 NUL) ''GET /abc'') = ''/''"
  using request_without_get_is_root[of "replicate 256 NUL" "''POST /form HTTP/1.1'' @ CRLF @ CRLF"]
        request_without_get_is_root[of "replicate 256 NUL" "''GET /abc''"]
  by (simp add: first_occurrence_strstr MAX_PATH_LENGTH_def c_str_simps NUL_def CRLF_def CR_def LF_def)

text \<open>
  The claim as stated fails: the first line \<open>GET /abc\<close> has no space after the target, yet
  the parser runs on to the space of the next line and returns \<open>/abc\r\nHost:\<close>.
\<close>

theorem malformed_first_line_counterexample:
  "takeWhile (\<lambda>c. c \<noteq> CR \<and> c \<noteq> LF) (''GET /abc'' @ CRLF @ ''Host: localhost'' @ CRLF @ CRLF) = ''GET /abc''
   \<and> CHR '' '' \<notin> set (drop 4 ''GET /abc'')
   \<and> c_str (get_request_path (replicate MAX_PATH_LENGTH NUL)
         (''GET /abc'' @ CRLF @ ''Host: localhost'' @ CRLF @ CRLF)) = ''/abc'' @ CRLF @ ''Host:''
   \<and> ''/abc'' @ CRLF @ ''Host:'' \<noteq> ''/''"
  by (simp add: get_request_path_value MAX_PATH_LENGTH_def c_str_simps NUL_def CRLF_def CR_def LF_def)

text \<open>
  Claim C3, as the code has it. The path returned never contains \<open>%20\<close> and is at most
  \<open>MAX_PATH_LENGTH - 1\<close> bytes long. It begins with \<open>/\<close> when the text after the first
  \<open>GET \<close> does (and when there is no \<open>GET \<close>); the parser does not check the target.
\<close>

theorem request_path_invariant:
  assumes "length path = MAX_PATH_LENGTH"
  shows "\<not> sublist ''%20'' (c_str (get_request_path path mem))
       \<and> length (c_str (get_request_path path mem)) \<le> MAX_PATH_LENGTH - 1
       \<and> ((\<forall>i. first_occurrence ''GET '' (c_str mem) i \<longrightarrow> prefix ''/'' (drop (i + 4) (c_str mem)))
            \<longrightarrow> prefix ''/'' (c_str (get_request_path path mem)))"
proof -
  let ?p = "c_str (get_request_path path mem)"
  note v = get_request_path_value[OF assms, of mem]
  have root: "\<not> sublist ''%20'' ''/''" by (simp add: sublist_Cons_right)
  have 1: "\<not> sublist ''%20'' ?p"
    unfolding v using root url_decode_no_raw_escape by (simp split: option.splits)
  have "length (url_decode (take (min j (MAX_PATH_LENGTH - 1)) s)) \<le> MAX_PATH_LENGTH - 1" for j s
    using length_url_decode[of "take (min j (MAX_PATH_LENGTH - 1)) s"] by simp
  then have 2: "length ?p \<le> MAX_PATH_LENGTH - 1"
    unfolding v by (simp add: MAX_PATH_LENGTH_def split: option.splits)
  have 3: "prefix ''/'' ?p"
    if h: "\<forall>i. first_occurrence ''GET '' (c_str mem) i \<longrightarrow> prefix ''/'' (drop (i + 4) (c_str mem))"
  proof (cases "strstr (c_str mem) ''GET ''")
    case None
    then show ?thesis unfolding v by simp
  next
    case (Some i)
    let ?s = "drop (i + 4) (c_str mem)"
    from h Some have sl: "prefix ''/'' ?s" by (simp add: first_occurrence_strstr)
    show ?thesis
    proof (cases "strstr ?s '' ''")
      case None
      with Some show ?thesis unfolding v by simp
    next
      case (Some j)
      from sl obtain r where r: "?s = CHR ''/'' # r" by (auto simp: prefix_def)
      with Some have "j \<noteq> 0" by (auto split: if_splits)
      then have "prefix ''/'' (take (min j (MAX_PATH_LENGTH - 1)) ?s)"
        unfolding r by (cases j) (simp_all add: MAX_PATH_LENGTH_def)
      then have "prefix ''/'' (url_decode (take (min j (MAX_PATH_LENGTH - 1)) ?s))"
        by (rule url_decode_hd)
      with Some \<open>strstr (c_str mem) ''GET '' = Some i\<close> show ?thesis unfolding v by simp
    qed
  qed
  from 1 2 3 show ?thesis by blast
qed

theorem request_path_invariant_witness:
  "\<not> sublist ''%20'' (c_str (get_request_path (replicate 256 NUL) ''GET /a%20b HTTP/1.1''))
   \<and> length (c_str (get_request_path (replicate 256 NUL) ''GET /a%20b HTTP/1.1'')) \<le> 255
   \<and> prefix ''/'' (c_str (get_request_path (replicate 256 NUL) ''GET /a%20b HTTP/1.1''))"
  using request_path_invariant[of "replicate 256 NUL" "''GET /a%20b HTTP/1.1''"]
  by (simp add: first_occurrence_strstr MAX_PATH_LENGTH_def c_str_simps NUL_def)

text \<open>
  The claim as stated fails: a target without a leading slash is returned as it is.
\<close>

theorem request_path_slash_counterexample:
  "c_str (get_request_path (replicate MAX_PATH_LENGTH NUL) (''GET index.html HTTP/1.1'' @ CRLF @ CRLF))
     = ''index.html''
   \<and> \<not> prefix ''/'' ''index.html''"
  by (simp add: get_request_path_value MAX_PATH_LENGTH_def c_str_simps NUL_def CRLF_def CR_def LF_def)

section \<open>Relaying, formatting and traces\<close>

lemma relay_loop_returns:
  "is_end (rd (k + n)) \<Longrightarrow> \<exists>es. relay_loop d rd k = Some es \<and> relay_trace d es"
proof (induction n arbitrary: k)
  case 0
  then show ?case
    by (subst relay_loop.simps) (auto split: read_result.splits)
next
  case (Suc n)
  show ?case
  proof (cases "is_end (rd k)")
    case True
    then show ?thesis
      by (subst relay_loop.simps) (auto split: read_result.splits)
  next
    case False
    then obtain buffer where b: "rd k = Bytes buffer" "buffer \<noteq> []"
      by (cases "rd k") auto
    from Suc.prems have "is_end (rd (Suc k + n))" by simp
    from Suc.IH[OF this] obtain es where es: "relay_loop d rd (Suc k) = Some es" "relay_trace d es"
      by blast
    show ?thesis
      by (subst relay_loop.simps) (simp add: b es)
  qed
qed

lemma relay_loop_shape:
  assumes "relay_loop d rd k = Some es"
  shows "relay_trace d es"
  using assms
  by (rule relay_loop.raw_induct[rotated])
     (auto split: read_result.splits if_splits simp: bind_eq_Some_conv)

lemma chunked_relay:
  "\<exists>es. relay_loop d (chunked_reads bytes) k = Some es
       \<and> relay_trace d es \<and> socket_bytes es = drop (k * BUFFER_SIZE) bytes"
proof (induction "length bytes - k * BUFFER_SIZE" arbitrary: k rule: less_induct)
  case less
  let ?rd = "chunked_reads bytes"
  let ?chunk = "take BUFFER_SIZE (drop (k * BUFFER_SIZE) bytes)"
  have rd: "?rd k = Bytes ?chunk" by (simp add: chunked_reads_def)
  show ?case
  proof (cases "?chunk = []")
    case True
    then have "drop (k * BUFFER_SIZE) bytes = []" by (simp add: BUFFER_SIZE_def)
    with True rd show ?thesis
      by (subst relay_loop.simps) simp
  next
    case False
    then have lt: "k * BUFFER_SIZE < length bytes" by (auto simp: BUFFER_SIZE_def)
    then have "length bytes - Suc k * BUFFER_SIZE < length bytes - k * BUFFER_SIZE"
      by (simp add: BUFFER_SIZE_def)
    from less[OF this] obtain es where
      es: "relay_loop d ?rd (Suc k) = Some es" "relay_trace d es"
          "socket_bytes es = drop (Suc k * BUFFER_SIZE) bytes" by blast
    have "?chunk @ drop (Suc k * BUFFER_SIZE) bytes = drop (k * BUFFER_SIZE) bytes"
      by (simp add: drop_drop[symmetric] add.commute del: drop_drop)
    with False rd es show ?thesis
      by (subst relay_loop.simps) simp
  qed
qed

lemma regular_file_relay:
  "\<exists>es. relay_loop d (file_read (regular_file bytes)) k = Some es
       \<and> relay_trace d es \<and> socket_bytes es = drop (k * BUFFER_SIZE) bytes"
  using chunked_relay[of d bytes k] by (simp add: regular_file_def)

lemma chunked_reads_end: "is_end (chunked_reads bytes (length bytes))"
  by (simp add: chunked_reads_def BUFFER_SIZE_def)

subsection \<open>Formatting\<close>

lemma dec_length: "n < 10 ^ k \<Longrightarrow> 0 < k \<Longrightarrow> length (dec n) \<le> k"
proof (induction n arbitrary: k rule: dec.induct)
  case (1 n)
  show ?case
  proof (cases "n < 10")
    case True
    with "1.prems" show ?thesis by (simp add: dec.simps)
  next
    case False
    then obtain k' where k: "k = Suc k'" using "1.prems" by (cases k) auto
    with False "1.prems" have "0 < k'" by (cases k') auto
    moreover from "1.prems" k have "n div 10 < 10 ^ k'" by (simp add: less_mult_imp_div_less)
    ultimately have "length (dec (n div 10)) \<le> k'" using "1.IH"[OF False] by simp
    with False k show ?thesis by (subst dec.simps) simp
  qed
qed

lemma set_dec: "set (dec n) \<subseteq> set ''0123456789''"
proof (induction n rule: dec.induct)
  case (1 n)
  have d: "digit d \<in> set ''0123456789''" if "d < 10" for d
    unfolding digit_def using that by (intro nth_mem) simp
  show ?case
  proof (cases "n < 10")
    case True
    then show ?thesis using d[of n] by (subst dec.simps) simp
  next
    case False
    with "1.IH" d[of "n mod 10"] show ?thesis by (subst dec.simps) simp
  qed
qed

lemma dec_nonempty: "dec n \<noteq> []"
  by (subst dec.simps) simp

lemma fmt_ld_length: "length (fmt_ld (sint (w :: 64 word))) \<le> 20"
proof -
  have p2: "(2::int) ^ 63 = 9223372036854775808" by simp
  have p10: "(10::nat) ^ 19 = 10000000000000000000" by simp
  have lo: "- (2 ^ 63) \<le> sint w" using sint_ge[of w] by simp
  have hi: "sint w < 2 ^ 63" using sint_lt[of w] by simp
  have "nat (- sint w) < 10 ^ 19"
    unfolding p10 using lo unfolding p2 by linarith
  moreover have "nat (sint w) < 10 ^ 19"
    unfolding p10 using hi unfolding p2 by linarith
  ultimately have "length (dec (nat (- sint w))) \<le> 19" "length (dec (nat (sint w))) \<le> 19"
    by (simp_all add: dec_length del: power_numeral)
  then show ?thesis by (simp add: fmt_ld_def)
qed

lemma dec_line: "CR \<notin> set (dec n) \<and> LF \<notin> set (dec n)"
proof -
  have "CR \<notin> set ''0123456789''" "LF \<notin> set ''0123456789''"
    by (simp_all add: CR_def LF_def)
  with set_dec[of n] show ?thesis by blast
qed

lemma fmt_ld_line: "fmt_ld i \<noteq> [] \<and> CR \<notin> set (fmt_ld i) \<and> LF \<notin> set (fmt_ld i)"
proof (cases "i < 0")
  case True
  have "CHR ''-'' \<noteq> CR" "CHR ''-'' \<noteq> LF" by (simp_all add: CR_def LF_def)
  with True dec_line[of "nat (- i)"] show ?thesis by (simp add: fmt_ld_def)
next
  case False
  with dec_line[of "nat i"] dec_nonempty[of "nat i"] show ?thesis by (simp add: fmt_ld_def)
qed

lemma sint_of_nat_64: "n < 2 ^ 63 \<Longrightarrow> sint (of_nat n :: 64 word) = int n"
proof -
  assume n: "n < 2 ^ 63"
  have "sint (of_nat n :: 64 word) = signed_take_bit 63 (int n)"
    by (simp add: signed_of_nat)
  also have "\<dots> = int n"
    using n by (simp add: signed_take_bit_int_eq_self)
  finally show ?thesis .
qed

lemma get_content_type_cases:
  "get_content_type e \<in> {''text/html'', ''text/css'', ''application/javascript'', ''image/jpeg'',
     ''image/png'', ''image/gif'', ''text/plain'', ''application/octet-stream''}"
  by (simp add: get_content_type_def)

lemma get_content_type_line:
  "length (get_content_type e) \<le> 24 \<and> CR \<notin> set (get_content_type e) \<and> LF \<notin> set (get_content_type e)"
  using get_content_type_cases[of e] by (auto simp: CR_def LF_def)

lemma file_headers_text:
  assumes "length content_type \<le> 24"
  shows "file_headers content_type st_size =
     ''HTTP/1.1 200 OK'' @ CRLF @
     ''Content-Type: '' @ content_type @ CRLF @
     ''Content-Length: '' @ fmt_ld (sint st_size) @ CRLF @
     ''Connection: close'' @ CRLF @ CRLF"
  using assms fmt_ld_length[of st_size]
  by (simp add: file_headers_def snprintf_def BUFFER_SIZE_def CRLF_def)

lemma file_headers_head:
  assumes "length content_type \<le> 24"
  shows "file_headers content_type st_size =
     response_head ''200 OK''
       [''Content-Type: '' @ content_type, ''Content-Length: '' @ fmt_ld (sint st_size),
        ''Connection: close'']"
  by (simp add: file_headers_text[OF assms] response_head_def)

subsection \<open>Traces\<close>

lemma body_only_no_writes: "writes es = [] \<Longrightarrow> body_only es"
  by (induction es rule: body_only.induct) auto

lemma relay_trace_body_only:
  "relay_trace d body \<Longrightarrow> writes rest = [] \<Longrightarrow> body_only (body @ rest)"
proof (induction d body rule: relay_trace.induct)
  case (1 d d' r)
  then have "body_only rest" by (simp add: body_only_no_writes)
  with 1 show ?case by (cases r; cases rest; cases "hd rest") auto
qed auto


lemma dec_value_dec: "dec_value (dec n) = n"
proof (induction n rule: dec.induct)
  case (1 n)
  have d: "of_char (digit d) - 48 = d" if "d < 10" for d
  proof -
    from that have "d \<in> {0, 1, 2, 3, 4, 5, 6, 7, 8, 9}" by auto
    then show ?thesis by (auto simp: digit_def)
  qed
  show ?case
  proof (cases "n < 10")
    case True
    then show ?thesis using d[of n] by (subst dec.simps) simp
  next
    case False
    from "1.IH"[OF False] have "foldl (\<lambda>a c. 10 * a + (of_char c - 48)) 0 (dec (n div 10)) = n div 10"
      by simp
    with False d[of "n mod 10"] show ?thesis by (subst dec.simps) simp
  qed
qed

lemma relay_loop_eof: "rd 0 = Bytes [] \<Longrightarrow> relay_loop d rd 0 = Some [EvRead d (Bytes [])]"
  by (subst relay_loop.simps) simp

lemma relay_loop_one_chunk:
  assumes "rd 0 = Bytes bytes" and "bytes \<noteq> []" and "rd (Suc 0) = Bytes []"
  shows "relay_loop d rd 0 = Some [EvRead d (Bytes bytes), EvWrite bytes, EvRead d (Bytes [])]"
  by (subst relay_loop.simps, subst relay_loop.simps) (simp add: assms)

lemma relay_loop_error: "rd 0 = ReadError \<Longrightarrow> relay_loop d rd 0 = Some [EvRead d ReadError]"
  by (subst relay_loop.simps) simp

section \<open>Serving scripts and files\<close>



text \<open>
  Claim C6. For a regular file of \<open>N\<close> bytes that nobody modifies (\<open>N\<close> fits \<open>off_t\<close>),
  \<open>serve_file\<close> returns; its first write is the head with \<open>Content-Length: N\<close> in decimal,
  and the writes after it are exactly the bytes of the file.
\<close>

theorem static_file_length_and_body:
  assumes "open_rdonly env file_path = Some (regular_file bytes)"
    and "length bytes < 2 ^ 63"
  shows "\<exists>body. serve_file env file_path =
            Some ([EvWrite (''HTTP/1.1 200 OK'' @ CRLF @
                           ''Content-Type: '' @ get_content_type (get_file_extension file_path) @ CRLF @
                           ''Content-Length: '' @ dec (length bytes) @ CRLF @
                           ''Connection: close'' @ CRLF @ CRLF)]
                  @ body @ [EvClose FileFd])
           \<and> relay_trace FileFd body
           \<and> socket_bytes body = bytes
           \<and> dec_value (dec (length bytes)) = length bytes"
proof -
  from regular_file_relay[of FileFd bytes 0] obtain body where
    body: "relay_loop FileFd (file_read (regular_file bytes)) 0 = Some body"
          "relay_trace FileFd body" "socket_bytes body = bytes" by auto
  have sz: "fstat_size (regular_file bytes) = Some (of_nat (length bytes))"
    by (simp add: regular_file_def)
  have "fmt_ld (sint (of_nat (length bytes) :: 64 word)) = dec (length bytes)"
    using assms(2) by (simp add: sint_of_nat_64 fmt_ld_def)
  then have "file_headers (get_content_type (get_file_extension file_path)) (of_nat (length bytes))
      = ''HTTP/1.1 200 OK'' @ CRLF @
        ''Content-Type: '' @ get_content_type (get_file_extension file_path) @ CRLF @
        ''Content-Length: '' @ dec (length bytes) @ CRLF @
        ''Connection: close'' @ CRLF @ CRLF"
    using file_headers_text[of "get_content_type (get_file_extension file_path)" "of_nat (length bytes)"]
          get_content_type_line[of "get_file_extension file_path"] by simp
  then have "serve_file env file_path =
            Some ([EvWrite (''HTTP/1.1 200 OK'' @ CRLF @
                           ''Content-Type: '' @ get_content_type (get_file_extension file_path) @ CRLF @
                           ''Content-Length: '' @ dec (length bytes) @ CRLF @
                           ''Connection: close'' @ CRLF @ CRLF)]
                  @ body @ [EvClose FileFd])"
    using assms(1) sz body(1) by (simp add: serve_file_def Let_def)
  with body(2,3) dec_value_dec show ?thesis by blast
qed

theorem static_file_length_and_body_witness:
  "\<exists>body. serve_file demo_env ''./www/index.html'' =
            Some ([EvWrite (''HTTP/1.1 200 OK'' @ CRLF @
                           ''Content-Type: text/html'' @ CRLF @
                           ''Content-Length: 17'' @ CRLF @
                           ''Connection: close'' @ CRLF @ CRLF)]
                  @ body @ [EvClose FileFd])
           \<and> socket_bytes body = ''<h1>It works</h1>''"
proof -
  have 1: "open_rdonly demo_env ''./www/index.html'' = Some (regular_file ''<h1>It works</h1>'')"
    by (simp add: demo_env_def)
  have 2: "length ''<h1>It works</h1>'' < 2 ^ 63" by simp
  have 3: "get_content_type (get_file_extension ''./www/index.html'') = ''text/html''"
    by (simp add: get_content_type_def get_file_extension_def)
  have 4: "dec (length ''<h1>It works</h1>'') = ''17''"
    by (simp add: dec.simps digit_def)
  from static_file_length_and_body[OF 1 2] show ?thesis
    unfolding 3 4 by auto
qed

text \<open>
  Claim C10. When the extension of a served file is in the table of \<open>get_content_type\<close>
  only after lowering its letters, the head carries
  \<open>Content-Type: application/octet-stream\<close>, although the lowered extension has a type of
  its own: the lookup compares with \<open>strcmp\<close>.
\<close>

theorem content_type_lookup_case_sensitive:
  assumes "open_rdonly env file_path = Some file"
    and "fstat_size file = Some st_size"
    and "is_end (file_read file n)"
    and "extension = get_file_extension file_path"
    and "extension \<notin> set [''html'', ''htm'', ''css'', ''js'', ''jpg'', ''jpeg'', ''png'', ''gif'', ''txt'', ''php'']"
    and "map tolower extension \<in> set [''html'', ''htm'', ''css'', ''js'', ''jpg'', ''jpeg'', ''png'', ''gif'', ''txt'', ''php'']"
  shows "\<exists>body. serve_file env file_path =
            Some ([EvWrite (''HTTP/1.1 200 OK'' @ CRLF @
                           ''Content-Type: application/octet-stream'' @ CRLF @
                           ''Content-Length: '' @ fmt_ld (sint st_size) @ CRLF @
                           ''Connection: close'' @ CRLF @ CRLF)]
                  @ body @ [EvClose FileFd])
           \<and> relay_trace FileFd body
           \<and> get_content_type extension = ''application/octet-stream''
           \<and> get_content_type (map tolower extension) \<noteq> ''application/octet-stream''"
proof -
  from assms(3) have "is_end (file_read file (0 + n))" by simp
  from relay_loop_returns[where rd = "file_read file" and k = 0 and n = n and d = FileFd, OF this]
  obtain body where
    body: "relay_loop FileFd (file_read file) 0 = Some body" "relay_trace FileFd body" by blast
  have ct: "get_content_type extension = ''application/octet-stream''"
    using assms(5) by (simp add: get_content_type_def)
  have lower: "get_content_type (map tolower extension) \<noteq> ''application/octet-stream''"
    using assms(6) by (auto simp: get_content_type_def)
  have "file_headers ''application/octet-stream'' st_size =
          ''HTTP/1.1 200 OK'' @ CRLF @
          ''Content-Type: application/octet-stream'' @ CRLF @
          ''Content-Length: '' @ fmt_ld (sint st_size) @ CRLF @
          ''Connection: close'' @ CRLF @ CRLF"
    using file_headers_text[of "''application/octet-stream''" st_size] by simp
  then have "serve_file env file_path =
            Some ([EvWrite (''HTTP/1.1 200 OK'' @ CRLF @
                           ''Content-Type: application/octet-stream'' @ CRLF @
                           ''Content-Length: '' @ fmt_ld (sint st_size) @ CRLF @
                           ''Connection: close'' @ CRLF @ CRLF)]
                  @ body @ [EvClose FileFd])"
    using assms(1,2) body(1) ct[unfolded assms(4)] by (simp add: serve_file_def Let_def)
  with body(2) ct lower show ?thesis by blast
qed

theorem content_type_lookup_case_sensitive_witness:
  "\<exists>body. serve_file demo_env ''./www/NOTES.TXT'' =
            Some ([EvWrite (''HTTP/1.1 200 OK'' @ CRLF @
                           ''Content-Type: application/octet-stream'' @ CRLF @
                           ''Content-Length: 5'' @ CRLF @
                           ''Connection: close'' @ CRLF @ CRLF)]
                  @ body @ [EvClose FileFd])
           \<and> get_content_type ''TXT'' = ''application/octet-stream''
           \<and> get_content_type ''txt'' \<noteq> ''application/octet-stream''"
proof -
  have 1: "open_rdonly demo_env ''./www/NOTES.TXT'' = Some (regular_file ''hello'')"
    by (simp add: demo_env_def)
  have 2: "fstat_size (regular_file ''hello'') = Some 5"
    by (simp add: regular_file_def)
  have 3: "is_end (file_read (regular_file ''hello'') 1)"
    by (simp add: regular_file_def chunked_reads_def BUFFER_SIZE_def)
  have 4: "''TXT'' = get_file_extension ''./www/NOTES.TXT''"
    by (simp add: get_file_extension_def)
  have 5: "fmt_ld (sint (5 :: 64 word)) = ''5''"
    by (simp add: fmt_ld_def dec.simps digit_def)
  from content_type_lookup_case_sensitive[OF 1 2 3 4] show ?thesis
    unfolding 5 by (auto simp: tolower_def)
qed

section \<open>Handling a connection\<close>

subsection \<open>The request buffer\<close>

lemma c_str_append: "NUL \<notin> set a \<Longrightarrow> c_str (a @ b) = a @ c_str b"
  by (induction a) (auto simp: c_str_def)

lemma c_str_replicate_NUL: "c_str (xs @ replicate m NUL) = c_str xs"
proof (induction xs)
  case Nil
  show ?case by (cases m) (simp_all add: c_str_def)
next
  case (Cons x xs)
  then show ?case by (simp add: c_str_def)
qed

lemma c_str_recv_buffer: "c_str (recv_buffer received) = c_str (take (BUFFER_SIZE - 1) received)"
  by (simp add: recv_buffer_def Let_def c_str_replicate_NUL min_def)

lemma take_prefix: "length a \<le> n \<Longrightarrow> take n (a @ b) = a @ take (n - length a) b"
  by simp

lemma strstr_char_append: "c \<notin> set t \<Longrightarrow> strstr (t @ c # rest) [c] = Some (length t)"
  by (induction t) auto

lemma get_request_path_recv:
  "get_request_path path (recv_buffer received) = get_request_path path (take (BUFFER_SIZE - 1) received)"
  by (simp add: get_request_path_def c_str_recv_buffer)

lemma request_path_GET:
  assumes "length path = MAX_PATH_LENGTH"
    and "CHR '' '' \<notin> set t" and "NUL \<notin> set t" and "length t \<le> 4000"
  shows "c_str (get_request_path path (recv_buffer (''GET '' @ t @ '' '' @ rest)))
           = url_decode (take (MAX_PATH_LENGTH - 1) t)"
proof -
  have "length (''GET '' @ t @ '' '') \<le> BUFFER_SIZE - 1"
    using assms(4) by (simp add: BUFFER_SIZE_def)
  then have "take (BUFFER_SIZE - 1) ((''GET '' @ t @ '' '') @ rest)
      = (''GET '' @ t @ '' '') @ take (BUFFER_SIZE - 1 - length (''GET '' @ t @ '' '')) rest"
    by (rule take_prefix)
  then obtain r where r: "take (BUFFER_SIZE - 1) ((''GET '' @ t @ '' '') @ rest)
      = (''GET '' @ t @ '' '') @ r" by blast
  have "NUL \<notin> set (''GET '' @ t @ '' '')" using assms(3) by (simp add: NUL_def)
  then have "c_str ((''GET '' @ t @ '' '') @ r) = (''GET '' @ t @ '' '') @ c_str r"
    by (rule c_str_append)
  with r have cs: "c_str (take (BUFFER_SIZE - 1) (''GET '' @ t @ '' '' @ rest))
      = ''GET '' @ t @ '' '' @ c_str r"
    by simp
  have g: "strstr (''GET '' @ t @ '' '' @ c_str r) ''GET '' = Some 0" by simp
  have sp: "strstr (t @ '' '' @ c_str r) '' '' = Some (length t)"
    using strstr_char_append[OF assms(2), of "c_str r"] by simp
  have "c_str (get_request_path path (take (BUFFER_SIZE - 1) (''GET '' @ t @ '' '' @ rest)))
      = url_decode (take (min (length t) (MAX_PATH_LENGTH - 1)) (t @ '' '' @ c_str r))"
    unfolding get_request_path_value[OF assms(1)] cs g using sp by simp
  then show ?thesis
    by (simp add: get_request_path_recv min_def)
qed

lemma url_decode_plain: "CHR ''%'' \<notin> set t \<Longrightarrow> url_decode t = t"
  by (induction t rule: url_decode.induct) auto

subsection \<open>The two kinds of request path\<close>

lemma handle_client_directory:
  assumes "received \<noteq> []"
    and "c_str (get_request_path path (recv_buffer received)) = rp"
    and "rp \<noteq> []" and "last rp = CHR ''/''"
  shows "handle_client env path (Bytes received) =
     (let file_path = snprintf MAX_PATH_LENGTH (WWW_DIRECTORY @ rp);
          index_html_path = snprintf MAX_PATH_LENGTH (file_path @ ''/index.html'');
          index_php_path = snprintf MAX_PATH_LENGTH (file_path @ ''/index.php'')
      in if stat_ok env index_html_path then finish (serve_file env index_html_path)
         else if stat_ok env index_php_path
         then finish (serve_php env (request_log (recv_buffer received) rp) index_php_path)
         else finish (Some send_not_found))"
  using assms by (simp add: handle_client_def Let_def file_exists_def)

lemma handle_client_file:
  assumes "received \<noteq> []"
    and "c_str (get_request_path path (recv_buffer received)) = rp"
    and "rp \<noteq> []" and "last rp \<noteq> CHR ''/''"
  shows "handle_client env path (Bytes received) =
     (let file_path = snprintf MAX_PATH_LENGTH (WWW_DIRECTORY @ rp)
      in if stat_ok env file_path
         then (if strcasecmp_eq (get_file_extension file_path) ''php''
               then finish (serve_php env (request_log (recv_buffer received) rp) file_path)
               else finish (serve_file env file_path))
         else finish (Some send_not_found))"
  using assms by (simp add: handle_client_def Let_def file_exists_def)

subsection \<open>File extensions\<close>

lemma strrchr_None: "ch \<notin> set s \<Longrightarrow> strrchr s ch = None"
  by (induction s) auto

lemma strrchr_append: "ch \<notin> set e \<Longrightarrow> strrchr (stem @ ch # e) ch = Some (length stem)"
  by (induction stem) (auto simp: strrchr_None)

lemma get_file_extension_suffix:
  "stem \<noteq> [] \<Longrightarrow> CHR ''.'' \<notin> set e \<Longrightarrow> get_file_extension (stem @ CHR ''.'' # e) = e"
  by (simp add: get_file_extension_def strrchr_append)

lemma lower_php_no_dot: "map tolower e = ''php'' \<Longrightarrow> CHR ''.'' \<notin> set e"
proof
  assume e: "map tolower e = ''php''" and "CHR ''.'' \<in> set e"
  then have "tolower (CHR ''.'') \<in> tolower ` set e" by (intro imageI)
  then have "tolower (CHR ''.'') \<in> set (map tolower e)" by (simp only: set_map)
  then show False unfolding e by (simp add: tolower_def)
qed

lemma tolower_p: "tolower c = CHR ''p'' \<longleftrightarrow> c = CHR ''p'' \<or> c = CHR ''P''"
  by (auto simp: tolower_def split: if_splits)

lemma tolower_h: "tolower c = CHR ''h'' \<longleftrightarrow> c = CHR ''h'' \<or> c = CHR ''H''"
  by (auto simp: tolower_def split: if_splits)

lemma strcasecmp_php: "strcasecmp_eq e ''php'' \<longleftrightarrow> e \<in> set php_spellings"
proof -
  have low: "tolower CHR ''p'' = CHR ''p''" "tolower CHR ''h'' = CHR ''h''"
    by (simp_all add: tolower_def)
  have "map tolower e = ''php'' \<longleftrightarrow>
        (\<exists>a b c. e = [a, b, c] \<and> tolower a = CHR ''p'' \<and> tolower b = CHR ''h'' \<and> tolower c = CHR ''p'')"
    by (auto simp: map_eq_Cons_conv)
  also have "\<dots> \<longleftrightarrow> e \<in> set php_spellings"
    unfolding tolower_p tolower_h by (auto simp: php_spellings_def)
  finally show ?thesis by (simp add: strcasecmp_eq_def low)
qed

lemma php_spelling_no_dot: "ext \<in> set php_spellings \<Longrightarrow> CHR ''.'' \<notin> set ext"
  by (auto simp: php_spellings_def)

text \<open>
  Claim C8, as the code has it. The file path is the document root followed by the
  request path, cut to the 255 bytes its array holds. For a request path that does not
  end in a slash and whose file path exists, the file runs as a script exactly when the
  extension of the file path is \<open>php\<close> in some letter case, and is served as a file
  otherwise. Request paths of at most 250 bytes are not cut, so for them a request path
  ending in \<open>.PHP\<close>, in any letter case, goes to \<open>serve_php\<close>.
\<close>

theorem script_extension_case_insensitive:
  assumes "received \<noteq> []"
    and "c_str (get_request_path path (recv_buffer received)) = rp"
    and "rp \<noteq> []" and "last rp \<noteq> CHR ''/''"
    and "file_path = snprintf MAX_PATH_LENGTH (WWW_DIRECTORY @ rp)"
    and "stat_ok env file_path"
  shows "(get_file_extension file_path \<in> set php_spellings \<longrightarrow>
            handle_client env path (Bytes received) =
              finish (serve_php env (request_log (recv_buffer received) rp) file_path))
       \<and> (get_file_extension file_path \<notin> set php_spellings \<longrightarrow>
            handle_client env path (Bytes received) = finish (serve_file env file_path))
       \<and> (length rp \<le> 250 \<longrightarrow>
            file_path = WWW_DIRECTORY @ rp
            \<and> (\<forall>stem ext. rp = stem @ ''.'' @ ext \<and> ext \<in> set php_spellings \<longrightarrow>
                  handle_client env path (Bytes received) =
                    finish (serve_php env (request_log (recv_buffer received) rp) (WWW_DIRECTORY @ rp))))"
proof -
  have h: "handle_client env path (Bytes received) =
           (if get_file_extension file_path \<in> set php_spellings
            then finish (serve_php env (request_log (recv_buffer received) rp) file_path)
            else finish (serve_file env file_path))"
    using handle_client_file[OF assms(1-4), of env] assms(5,6)
    by (simp add: Let_def strcasecmp_php)
  have fp: "file_path = WWW_DIRECTORY @ rp" if "length rp \<le> 250"
    using that assms(5) by (simp add: snprintf_def MAX_PATH_LENGTH_def WWW_DIRECTORY_def)
  have s: "handle_client env path (Bytes received) =
             finish (serve_php env (request_log (recv_buffer received) rp) (WWW_DIRECTORY @ rp))"
    if len: "length rp \<le> 250" and r: "rp = stem @ ''.'' @ ext \<and> ext \<in> set php_spellings"
    for stem ext
  proof -
    from r have nd: "CHR ''.'' \<notin> set ext" by (simp add: php_spelling_no_dot)
    have "WWW_DIRECTORY @ stem \<noteq> []" by (simp add: WWW_DIRECTORY_def)
    then have "get_file_extension ((WWW_DIRECTORY @ stem) @ CHR ''.'' # ext) = ext"
      using nd by (rule get_file_extension_suffix)
    with r fp[OF len] have "get_file_extension file_path = ext" by simp
    with r h fp[OF len] show ?thesis by simp
  qed
  show ?thesis
  proof (intro conjI impI allI)
    assume "get_file_extension file_path \<in> set php_spellings"
    with h show "handle_client env path (Bytes received) =
        finish (serve_php env (request_log (recv_buffer received) rp) file_path)"
      by simp
  next
    assume "get_file_extension file_path \<notin> set php_spellings"
    with h show "handle_client env path (Bytes received) = finish (serve_file env file_path)"
      by simp
  next
    assume "length rp \<le> 250"
    then show "file_path = WWW_DIRECTORY @ rp" by (rule fp)
  next
    fix stem ext
    assume "length rp \<le> 250" and "rp = stem @ ''.'' @ ext \<and> ext \<in> set php_spellings"
    then show "handle_client env path (Bytes received) =
        finish (serve_php env (request_log (recv_buffer received) rp) (WWW_DIRECTORY @ rp))"
      by (rule s)
  qed
qed

theorem script_extension_case_insensitive_witness:
  "handle_client demo_env (replicate 256 NUL) (Bytes (''GET /page.PHP HTTP/1.1'' @ CRLF @ CRLF))
     = finish (serve_php demo_env
                 (request_log (recv_buffer (''GET /page.PHP HTTP/1.1'' @ CRLF @ CRLF)) ''/page.PHP'')
                 ''./www/page.PHP'')"
proof -
  have rp: "c_str (get_request_path (replicate 256 NUL) (recv_buffer (''GET /page.PHP HTTP/1.1'' @ CRLF @ CRLF)))
      = ''/page.PHP''"
    using request_path_GET[of "replicate 256 NUL" "''/page.PHP''" "''HTTP/1.1'' @ CRLF @ CRLF"]
    by (simp add: MAX_PATH_LENGTH_def NUL_def)
  have fp: "''./www/page.PHP'' = snprintf MAX_PATH_LENGTH (WWW_DIRECTORY @ ''/page.PHP'')"
    by (simp add: snprintf_def MAX_PATH_LENGTH_def WWW_DIRECTORY_def)
  have ex: "stat_ok demo_env ''./www/page.PHP''" by (simp add: demo_env_def)
  have ext: "get_file_extension ''./www/page.PHP'' \<in> set php_spellings"
    by (simp add: get_file_extension_def php_spellings_def)
  from script_extension_case_insensitive[OF _ rp _ _ fp ex] ext show ?thesis
    by simp
qed

lemma get_file_extension_hidden: "CHR ''.'' \<notin> set s \<Longrightarrow> get_file_extension (CHR ''.'' # s) = []"
  by (simp add: get_file_extension_def strrchr_None)

lemma long_php_facts:
  "length long_php_cut = 250" "long_php_cut \<noteq> []"
  "CHR '' '' \<notin> set long_php_cut" "NUL \<notin> set long_php_cut" "CHR ''%'' \<notin> set long_php_cut"
  "CHR ''.'' \<notin> set long_php_cut"
  by (simp_all add: long_php_cut_def NUL_def)

text \<open>
  The claim as stated fails for a long request path: with 254 bytes ending in \<open>.php\<close>, the
  script exists, but the file path is cut before the extension; the cut name exists too,
  and that file is served as a static file. No script runs.
\<close>

theorem script_extension_counterexample:
  "last (long_php_cut @ ''.php'') \<noteq> CHR ''/''
   \<and> stat_ok long_php_env (WWW_DIRECTORY @ long_php_cut @ ''.php'')
   \<and> handle_client long_php_env (replicate MAX_PATH_LENGTH NUL)
        (Bytes (''GET '' @ long_php_cut @ ''.php'' @ '' HTTP/1.1'' @ CRLF @ CRLF)) =
      Some (Returned [EvWrite (file_headers ''application/octet-stream'' 5),
                      EvRead FileFd (Bytes ''plain''), EvWrite ''plain'',
                      EvRead FileFd (Bytes []), EvClose FileFd, EvClose ClientSocket])
   \<and> finish (serve_php long_php_env
        (request_log (recv_buffer (''GET '' @ long_php_cut @ ''.php'' @ '' HTTP/1.1'' @ CRLF @ CRLF))
           (long_php_cut @ ''.php''))
        (WWW_DIRECTORY @ long_php_cut @ ''.php'')) =
      Some (Returned [EvClose PipeWriteEnd, EvWrite php_headers, EvRead PipeReadEnd (Bytes []),
                      EvClose PipeReadEnd, EvWaitpid, EvClose ClientSocket])"
proof -
  let ?path = "replicate MAX_PATH_LENGTH NUL"
  let ?rp = "long_php_cut @ ''.php''"
  let ?received = "''GET '' @ long_php_cut @ ''.php'' @ '' HTTP/1.1'' @ CRLF @ CRLF"
  let ?cut = "WWW_DIRECTORY @ long_php_cut"
  have "c_str (get_request_path ?path (recv_buffer (''GET '' @ ?rp @ '' '' @ (''HTTP/1.1'' @ CRLF @ CRLF))))
      = url_decode (take (MAX_PATH_LENGTH - 1) ?rp)"
    by (rule request_path_GET) (simp_all add: long_php_cut_def NUL_def)
  then have rp: "c_str (get_request_path ?path (recv_buffer ?received)) = ?rp"
    by (simp add: long_php_facts url_decode_plain MAX_PATH_LENGTH_def)
  have fp: "snprintf MAX_PATH_LENGTH (WWW_DIRECTORY @ long_php_cut @ ''.php'') = ?cut"
    by (simp add: snprintf_def MAX_PATH_LENGTH_def long_php_facts WWW_DIRECTORY_def)
  have ex: "stat_ok long_php_env ?cut" by (simp add: long_php_env_def)
  have "get_file_extension (CHR ''.'' # ''/www'' @ long_php_cut) = []"
    by (rule get_file_extension_hidden) (simp add: long_php_facts)
  then have ext: "get_file_extension ?cut = []" by (simp add: WWW_DIRECTORY_def)
  have h: "handle_client long_php_env ?path (Bytes ?received) = finish (serve_file long_php_env ?cut)"
    using handle_client_file[OF _ rp, of long_php_env] ex
    by (simp add: fp ext Let_def strcasecmp_eq_def)
  have rl: "relay_loop FileFd (chunked_reads ''plain'') 0 =
      Some [EvRead FileFd (Bytes ''plain''), EvWrite ''plain'', EvRead FileFd (Bytes [])]"
    by (rule relay_loop_one_chunk) (simp_all add: chunked_reads_def BUFFER_SIZE_def)
  have served: "finish (serve_file long_php_env ?cut) =
      Some (Returned [EvWrite (file_headers ''application/octet-stream'' 5),
                      EvRead FileFd (Bytes ''plain''), EvWrite ''plain'',
                      EvRead FileFd (Bytes []), EvClose FileFd, EvClose ClientSocket])"
    by (simp add: serve_file_def finish_def long_php_env_def ext get_content_type_def
          regular_file_def rl Let_def)
  have script: "finish (serve_php long_php_env (request_log (recv_buffer ?received) ?rp)
                  (WWW_DIRECTORY @ long_php_cut @ ''.php'')) =
      Some (Returned [EvClose PipeWriteEnd, EvWrite php_headers, EvRead PipeReadEnd (Bytes []),
                      EvClose PipeReadEnd, EvWaitpid, EvClose ClientSocket])"
    by (simp add: finish_def serve_php_def child_stdout_def relay_loop_eof long_php_env_def)
  have ex2: "stat_ok long_php_env (WWW_DIRECTORY @ long_php_cut @ ''.php'')"
    by (simp add: long_php_env_def)
  from h served script ex2 show ?thesis by simp
qed




text \<open>
  Claim C5, as the code has it. For a request path ending in a slash the server looks for
  the index page, then for the index script, then answers 404, in that order. The names
  it checks are the document root, the request path and \<open>/index.html\<close> (or \<open>/index.php\<close>),
  each cut to the 255 bytes its array holds; for request paths of at most 239 bytes
  nothing is cut.
\<close>

theorem directory_index_resolution:
  assumes "received \<noteq> []"
    and "c_str (get_request_path path (recv_buffer received)) = rp"
    and "rp \<noteq> []" and "last rp = CHR ''/''"
    and "index_html_path =
           snprintf MAX_PATH_LENGTH (snprintf MAX_PATH_LENGTH (WWW_DIRECTORY @ rp) @ ''/index.html'')"
    and "index_php_path =
           snprintf MAX_PATH_LENGTH (snprintf MAX_PATH_LENGTH (WWW_DIRECTORY @ rp) @ ''/index.php'')"
  shows "(stat_ok env index_html_path \<longrightarrow>
            handle_client env path (Bytes received) = finish (serve_file env index_html_path))
       \<and> (\<not> stat_ok env index_html_path \<and> stat_ok env index_php_path \<longrightarrow>
            handle_client env path (Bytes received) =
              finish (serve_php env (request_log (recv_buffer received) rp) index_php_path))
       \<and> (\<not> stat_ok env index_html_path \<and> \<not> stat_ok env index_php_path \<longrightarrow>
            handle_client env path (Bytes received) =
              Some (Returned [EvWrite not_found_response, EvClose ClientSocket]))
       \<and> (length rp \<le> 239 \<longrightarrow>
            index_html_path = WWW_DIRECTORY @ rp @ ''/index.html''
            \<and> index_php_path = WWW_DIRECTORY @ rp @ ''/index.php'')"
proof -
  have "length rp \<le> 239 \<longrightarrow>
            index_html_path = WWW_DIRECTORY @ rp @ ''/index.html''
            \<and> index_php_path = WWW_DIRECTORY @ rp @ ''/index.php''"
    using assms(5,6) by (simp add: snprintf_def MAX_PATH_LENGTH_def WWW_DIRECTORY_def)
  then show ?thesis
    using handle_client_directory[OF assms(1-4), of env] assms(5,6)
    by (simp add: Let_def finish_def send_not_found_def)
qed

theorem directory_index_resolution_witness:
  "handle_client demo_env (replicate 256 NUL) (Bytes (''GET / HTTP/1.1'' @ CRLF @ CRLF))
     = finish (serve_file demo_env ''./www//index.html'')"
proof -
  have rp: "c_str (get_request_path (replicate 256 NUL) (recv_buffer (''GET / HTTP/1.1'' @ CRLF @ CRLF)))
      = ''/''"
    using request_path_GET[of "replicate 256 NUL" "''/''" "''HTTP/1.1'' @ CRLF @ CRLF"]
    by (simp add: MAX_PATH_LENGTH_def NUL_def)
  have html: "''./www//index.html'' =
      snprintf MAX_PATH_LENGTH (snprintf MAX_PATH_LENGTH (WWW_DIRECTORY @ ''/'') @ ''/index.html'')"
    by (simp add: snprintf_def MAX_PATH_LENGTH_def WWW_DIRECTORY_def)
  have ex: "stat_ok demo_env ''./www//index.html''" by (simp add: demo_env_def)
  from directory_index_resolution[OF _ rp _ _ html refl, of demo_env] ex show ?thesis
    by simp
qed

lemma long_dir_facts:
  "length long_dir = 250" "last long_dir = CHR ''/''" "long_dir \<noteq> []"
  "CHR '' '' \<notin> set long_dir" "NUL \<notin> set long_dir" "CHR ''%'' \<notin> set long_dir"
  "CHR ''.'' \<notin> set long_dir"
  by (simp_all add: long_dir_def NUL_def)

text \<open>
  The claim as stated fails for a long request path: with 250 bytes, the name checked is
  cut back to the directory itself, which exists, so the directory is served as a file
  (a 200 head announcing 4096 bytes and no body) and the index page is not.
\<close>

theorem directory_index_counterexample:
  "last long_dir = CHR ''/''
   \<and> stat_ok long_dir_env (WWW_DIRECTORY @ long_dir @ ''index.html'')
   \<and> handle_client long_dir_env (replicate MAX_PATH_LENGTH NUL)
        (Bytes (''GET '' @ long_dir @ '' HTTP/1.1'' @ CRLF @ CRLF)) =
      Some (Returned [EvWrite (file_headers ''application/octet-stream'' 4096),
                      EvRead FileFd ReadError, EvClose FileFd, EvClose ClientSocket])
   \<and> finish (serve_file long_dir_env (WWW_DIRECTORY @ long_dir @ ''index.html'')) =
      Some (Returned [EvWrite (file_headers ''text/html'' 17),
                      EvRead FileFd (Bytes ''<h1>It works</h1>''), EvWrite ''<h1>It works</h1>'',
                      EvRead FileFd (Bytes []), EvClose FileFd, EvClose ClientSocket])
   \<and> handle_client long_dir_env (replicate MAX_PATH_LENGTH NUL)
        (Bytes (''GET '' @ long_dir @ '' HTTP/1.1'' @ CRLF @ CRLF))
      \<noteq> finish (serve_file long_dir_env (WWW_DIRECTORY @ long_dir @ ''index.html''))"
proof -
  let ?path = "replicate MAX_PATH_LENGTH NUL"
  let ?received = "''GET '' @ long_dir @ '' HTTP/1.1'' @ CRLF @ CRLF"
  let ?dir = "WWW_DIRECTORY @ long_dir"
  have "c_str (get_request_path ?path (recv_buffer (''GET '' @ long_dir @ '' '' @ (''HTTP/1.1'' @ CRLF @ CRLF))))
      = url_decode (take (MAX_PATH_LENGTH - 1) long_dir)"
    by (rule request_path_GET) (simp_all add: long_dir_facts)
  then have rp: "c_str (get_request_path ?path (recv_buffer ?received)) = long_dir"
    by (simp add: long_dir_facts url_decode_plain MAX_PATH_LENGTH_def)
  have len: "length ?dir = 255" by (simp add: long_dir_facts WWW_DIRECTORY_def)
  have fp: "snprintf MAX_PATH_LENGTH ?dir = ?dir"
    using len by (simp add: snprintf_def MAX_PATH_LENGTH_def)
  have html: "snprintf MAX_PATH_LENGTH (WWW_DIRECTORY @ long_dir @ ''/index.html'') = ?dir"
    using len by (simp add: snprintf_def MAX_PATH_LENGTH_def)
  have ex: "stat_ok long_dir_env ?dir" by (simp add: long_dir_env_def)
  have h: "handle_client long_dir_env ?path (Bytes ?received) = finish (serve_file long_dir_env ?dir)"
    using handle_client_directory[OF _ rp, of long_dir_env] ex
    by (simp add: long_dir_facts fp html Let_def)
  have ext_dir: "get_file_extension ?dir = []"
    unfolding WWW_DIRECTORY_def using get_file_extension_hidden[of "''/www'' @ long_dir"]
    by (simp add: long_dir_facts)
  have served: "finish (serve_file long_dir_env ?dir) =
      Some (Returned [EvWrite (file_headers ''application/octet-stream'' 4096),
                      EvRead FileFd ReadError, EvClose FileFd, EvClose ClientSocket])"
    by (simp add: serve_file_def finish_def long_dir_env_def ext_dir get_content_type_def
          relay_loop_error Let_def)
  have "get_file_extension ((?dir @ ''index'') @ CHR ''.'' # ''html'') = ''html''"
    by (rule get_file_extension_suffix) (simp_all add: WWW_DIRECTORY_def)
  then have ext_html: "get_file_extension (WWW_DIRECTORY @ long_dir @ ''index.html'') = ''html''"
    by simp
  have rd0: "file_read (regular_file ''<h1>It works</h1>'') 0 = Bytes ''<h1>It works</h1>''"
    by (simp add: regular_file_def chunked_reads_def BUFFER_SIZE_def)
  have rd1: "file_read (regular_file ''<h1>It works</h1>'') (Suc 0) = Bytes []"
    by (simp add: regular_file_def chunked_reads_def BUFFER_SIZE_def)
  have rl: "relay_loop FileFd (file_read (regular_file ''<h1>It works</h1>'')) 0 =
      Some [EvRead FileFd (Bytes ''<h1>It works</h1>''), EvWrite ''<h1>It works</h1>'',
            EvRead FileFd (Bytes [])]"
    by (subst relay_loop.simps, subst relay_loop.simps) (simp add: rd0 rd1)
  have claimed: "finish (serve_file long_dir_env (?dir @ ''index.html'')) =
      Some (Returned [EvWrite (file_headers ''text/html'' 17),
                      EvRead FileFd (Bytes ''<h1>It works</h1>''), EvWrite ''<h1>It works</h1>'',
                      EvRead FileFd (Bytes []), EvClose FileFd, EvClose ClientSocket])"
    using rl by (simp add: serve_file_def finish_def long_dir_env_def ext_html get_content_type_def
          regular_file_def Let_def)
  have ex2: "stat_ok long_dir_env (?dir @ ''index.html'')" by (simp add: long_dir_env_def)
  from h served claimed ex2 show ?thesis
    by (simp add: long_dir_facts)
qed

section \<open>The response of a connection\<close>

lemma response_okI:
  assumes "writes pre = []"
    and "status \<in> {''200 OK'', ''404 Not Found'', ''500 Internal Server Error''}"
    and "''Connection: close'' \<in> set headers"
    and "\<forall>l \<in> set (status # headers). l \<noteq> [] \<and> CR \<notin> set l \<and> LF \<notin> set l"
    and "body_only post"
  shows "response_ok (pre @ EvWrite (response_head status headers @ page) # post)"
  unfolding response_ok_def using assms by blast

lemma not_found_head:
  "not_found_response =
     response_head ''404 Not Found'' [''Content-Type: text/html'', ''Connection: close'']
     @ (''<html><body>'' @ ''<h1>404 Not Found</h1>'' @
        ''<p>The requested resource could not be found on this server.</p>'' @ ''</body></html>'')"
  by (simp add: not_found_response_def response_head_def)

lemma server_error_head:
  "server_error_response =
     response_head ''500 Internal Server Error'' [''Content-Type: text/html'', ''Connection: close'']
     @ (''<html><body>'' @ ''<h1>500 Internal Server Error</h1>'' @
        ''<p>The server encountered an error while processing your request.</p>'' @ ''</body></html>'')"
  by (simp add: server_error_response_def response_head_def)

lemma php_headers_head:
  "php_headers = response_head ''200 OK'' [''Content-Type: text/html'', ''Connection: close''] @ []"
  by (simp add: php_headers_def response_head_def)

lemma response_ok_not_found:
  "writes pre = [] \<Longrightarrow> writes post = [] \<Longrightarrow> response_ok (pre @ EvWrite not_found_response # post)"
  unfolding not_found_head
  by (rule response_okI) (simp_all add: body_only_no_writes CR_def LF_def)

lemma response_ok_server_error:
  "writes pre = [] \<Longrightarrow> writes post = [] \<Longrightarrow> response_ok (pre @ EvWrite server_error_response # post)"
  unfolding server_error_head
  by (rule response_okI) (simp_all add: body_only_no_writes CR_def LF_def)

lemma response_ok_php:
  "writes pre = [] \<Longrightarrow> body_only post \<Longrightarrow> response_ok (pre @ EvWrite php_headers # post)"
  unfolding php_headers_head
  by (rule response_okI) (simp_all add: CR_def LF_def)

lemma response_ok_file:
  assumes "writes pre = []" and "body_only post"
  shows "response_ok (pre @ EvWrite (file_headers (get_content_type e) st_size) # post)"
proof -
  note ct = get_content_type_line[of e]
  note ld = fmt_ld_line[of "sint st_size"]
  have hd: "file_headers (get_content_type e) st_size =
     response_head ''200 OK''
       [''Content-Type: '' @ get_content_type e, ''Content-Length: '' @ fmt_ld (sint st_size),
        ''Connection: close''] @ []"
    using file_headers_head[of "get_content_type e" st_size] ct by simp
  show ?thesis
    unfolding hd using assms ct ld
    by (intro response_okI) (simp_all add: CR_def LF_def)
qed

lemma serve_php_response:
  assumes "serve_php env printed file_path = Some es"
  shows "response_ok (es @ [EvClose ClientSocket])"
proof (cases "pipe_ok env")
  case False
  with assms have "es = [EvWrite server_error_response]"
    by (simp add: serve_php_def send_server_error_def)
  then show ?thesis
    using response_ok_server_error[of "[]" "[EvClose ClientSocket]"] by simp
next
  case True
  show ?thesis
  proof (cases "fork_ok env")
    case False
    with True assms have "es = [EvClose PipeReadEnd, EvClose PipeWriteEnd] @ [EvWrite server_error_response]"
      by (simp add: serve_php_def send_server_error_def)
    then show ?thesis
      using response_ok_server_error[of "[EvClose PipeReadEnd, EvClose PipeWriteEnd]" "[EvClose ClientSocket]"]
      by simp
  next
    case fork: True
    with \<open>pipe_ok env\<close> assms obtain body where
      body: "relay_loop PipeReadEnd (child_stdout env (script_log printed file_path) file_path) 0 = Some body"
            "es = [EvClose PipeWriteEnd, EvWrite php_headers] @ body @ [EvClose PipeReadEnd, EvWaitpid]"
      by (auto simp: serve_php_def)
    from relay_loop_shape[OF body(1)] have "relay_trace PipeReadEnd body" .
    then have "body_only (body @ [EvClose PipeReadEnd, EvWaitpid, EvClose ClientSocket])"
      by (rule relay_trace_body_only) simp
    then show ?thesis
      using response_ok_php[of "[EvClose PipeWriteEnd]"
              "body @ [EvClose PipeReadEnd, EvWaitpid, EvClose ClientSocket]"]
      by (simp add: body(2))
  qed
qed

lemma serve_file_response:
  assumes "serve_file env file_path = Some es"
  shows "response_ok (es @ [EvClose ClientSocket])"
proof (cases "open_rdonly env file_path")
  case None
  with assms have "es = [EvWrite not_found_response]"
    by (simp add: serve_file_def send_not_found_def)
  then show ?thesis
    using response_ok_not_found[of "[]" "[EvClose ClientSocket]"] by simp
next
  case (Some f)
  show ?thesis
  proof (cases "fstat_size f")
    case None
    with Some assms have "es = [EvClose FileFd] @ [EvWrite server_error_response]"
      by (simp add: serve_file_def send_server_error_def)
    then show ?thesis
      using response_ok_server_error[of "[EvClose FileFd]" "[EvClose ClientSocket]"] by simp
  next
    case st: (Some st_size)
    with Some assms obtain body where
      body: "relay_loop FileFd (file_read f) 0 = Some body"
            "es = [EvWrite (file_headers (get_content_type (get_file_extension file_path)) st_size)]
                  @ body @ [EvClose FileFd]"
      by (auto simp: serve_file_def Let_def)
    from relay_loop_shape[OF body(1)] have "relay_trace FileFd body" .
    then have "body_only (body @ [EvClose FileFd, EvClose ClientSocket])"
      by (rule relay_trace_body_only) simp
    then show ?thesis
      using response_ok_file[of "[]" "body @ [EvClose FileFd, EvClose ClientSocket]"
              "get_file_extension file_path" st_size]
      by (simp add: body(2))
  qed
qed

lemma finish_response:
  assumes "finish r = Some (Returned tr)"
    and "\<And>es. r = Some es \<Longrightarrow> response_ok (es @ [EvClose ClientSocket])"
  shows "response_ok tr"
  using assms by (cases r) (auto simp: finish_def)

text \<open>
  Claim C4. Whenever \<open>handle_client\<close> returns: if the read on the socket delivered nothing
  (an error, or no byte), nothing is written and the socket is closed; if it delivered a
  request, the first write starts with the one response head of the connection, with
  status \<open>200 OK\<close>, \<open>404 Not Found\<close> or \<open>500 Internal Server Error\<close> and the header
  \<open>Connection: close\<close>, and all later writes are body bytes relayed from the file or the
  pipe.
\<close>

theorem response_has_one_status_line:
  assumes "handle_client env path incoming = Some (Returned tr)"
  shows "(incoming = ReadError \<or> incoming = Bytes [] \<longrightarrow> tr = [EvClose ClientSocket])
       \<and> (incoming \<noteq> ReadError \<and> incoming \<noteq> Bytes [] \<longrightarrow> response_ok tr)"
proof (cases incoming)
  case ReadError
  with assms show ?thesis by (auto simp: handle_client_def)
next
  case (Bytes received)
  show ?thesis
  proof (cases "received = []")
    case True
    with Bytes assms show ?thesis by (auto simp: handle_client_def)
  next
    case False
    define rp where "rp = c_str (get_request_path path (recv_buffer received))"
    have nf: "response_ok (es @ [EvClose ClientSocket])" if "Some send_not_found = Some es" for es
      using that response_ok_not_found[of "[]" "[EvClose ClientSocket]"]
      by (auto simp: send_not_found_def)
    from assms Bytes False have "rp \<noteq> []"
      by (auto simp: handle_client_def Let_def rp_def)
    have "response_ok tr"
    proof (cases "last rp = CHR ''/''")
      case True
      from assms show ?thesis
        unfolding Bytes handle_client_directory[OF False rp_def[symmetric] \<open>rp \<noteq> []\<close> True]
        by (auto simp: Let_def split: if_splits
              intro: finish_response serve_file_response serve_php_response nf)
    next
      case nslash: False
      from assms show ?thesis
        unfolding Bytes handle_client_file[OF \<open>received \<noteq> []\<close> rp_def[symmetric] \<open>rp \<noteq> []\<close> nslash]
        by (auto simp: Let_def split: if_splits
              intro: finish_response serve_file_response serve_php_response nf)
    qed
    with Bytes False show ?thesis by simp
  qed
qed

lemma demo_root_request:
  "handle_client demo_env (replicate 256 NUL) (Bytes (''GET / HTTP/1.1'' @ CRLF @ CRLF)) =
     Some (Returned [EvWrite (file_headers ''text/html'' 17),
                     EvRead FileFd (Bytes ''<h1>It works</h1>''), EvWrite ''<h1>It works</h1>'',
                     EvRead FileFd (Bytes []), EvClose FileFd, EvClose ClientSocket])"
proof -
  have rp: "c_str (get_request_path (replicate 256 NUL) (recv_buffer (''GET / HTTP/1.1'' @ CRLF @ CRLF)))
      = ''/''"
    using request_path_GET[of "replicate 256 NUL" "''/''" "''HTTP/1.1'' @ CRLF @ CRLF"]
    by (simp add: MAX_PATH_LENGTH_def NUL_def)
  have html: "snprintf MAX_PATH_LENGTH (snprintf MAX_PATH_LENGTH (WWW_DIRECTORY @ ''/'') @ ''/index.html'')
      = ''./www//index.html''"
    by (simp add: snprintf_def MAX_PATH_LENGTH_def WWW_DIRECTORY_def)
  have ex: "stat_ok demo_env ''./www//index.html''" by (simp add: demo_env_def)
  have h: "handle_client demo_env (replicate 256 NUL) (Bytes (''GET / HTTP/1.1'' @ CRLF @ CRLF))
      = finish (serve_file demo_env ''./www//index.html'')"
    using handle_client_directory[OF _ rp, of demo_env] ex by (simp add: html Let_def)
  have rd0: "file_read (regular_file ''<h1>It works</h1>'') 0 = Bytes ''<h1>It works</h1>''"
    by (simp add: regular_file_def chunked_reads_def BUFFER_SIZE_def)
  have rd1: "file_read (regular_file ''<h1>It works</h1>'') (Suc 0) = Bytes []"
    by (simp add: regular_file_def chunked_reads_def BUFFER_SIZE_def)
  have rl: "relay_loop FileFd (file_read (regular_file ''<h1>It works</h1>'')) 0 =
      Some [EvRead FileFd (Bytes ''<h1>It works</h1>''), EvWrite ''<h1>It works</h1>'',
            EvRead FileFd (Bytes [])]"
    by (subst relay_loop.simps, subst relay_loop.simps) (simp add: rd0 rd1)
  have op: "open_rdonly demo_env ''./www//index.html'' = Some (regular_file ''<h1>It works</h1>'')"
    by (simp add: demo_env_def)
  have sz: "fstat_size (regular_file ''<h1>It works</h1>'') = Some 17"
    by (simp add: regular_file_def)
  have ext: "get_content_type (get_file_extension ''./www//index.html'') = ''text/html''"
    by (simp add: get_content_type_def get_file_extension_def)
  show ?thesis
    unfolding h by (simp add: serve_file_def finish_def Let_def op sz ext rl)
qed

theorem response_has_one_status_line_witness:
  "handle_client demo_env (replicate 256 NUL) (Bytes (''GET / HTTP/1.1'' @ CRLF @ CRLF)) =
     Some (Returned [EvWrite (file_headers ''text/html'' 17),
                     EvRead FileFd (Bytes ''<h1>It works</h1>''), EvWrite ''<h1>It works</h1>'',
                     EvRead FileFd (Bytes []), EvClose FileFd, EvClose ClientSocket])
   \<and> response_ok [EvWrite (file_headers ''text/html'' 17),
                EvRead FileFd (Bytes ''<h1>It works</h1>''), EvWrite ''<h1>It works</h1>'',
                EvRead FileFd (Bytes []), EvClose FileFd, EvClose ClientSocket]"
  using demo_root_request response_has_one_status_line[OF demo_root_request] by simp

end
